theory Spec2Isabelle
  imports Complex_Main "HOL-Library.Multiset"
begin

section \<open>Python values and library calls used by app.py\<close>

text \<open>
  The two functions of \<^verbatim>\<open>app.py\<close> that compute something are \<^verbatim>\<open>generate_demo\<close> and
  \<^verbatim>\<open>molecule_svg\<close>. Both call the Python standard library (\<^verbatim>\<open>random\<close>, \<^verbatim>\<open>math\<close>, \<^verbatim>\<open>hash\<close>,
  \<^verbatim>\<open>round\<close>) and \<^verbatim>\<open>generate_demo\<close> calls pandas. None of that code is part of the repository.
  The embedding therefore takes the pseudo-random generator, the string hash and the
  data-frame sort as parameters, and states next to each parameter the part of the
  library's documented contract that a theorem may assume.

  A Python float is written as the real number it denotes. In \<^verbatim>\<open>generate_demo\<close> the
  score is computed in binary64: the difference and each product are rounded to the
  nearest float (\<open>binary64\<close> below). In \<^verbatim>\<open>molecule_svg\<close> the arithmetic is exact: what is
  kept of binary64 there is its range (an integer too large for a float makes the
  conversion raise), not its rounding. Python integers are \<^typ>\<open>int\<close>.
\<close>

datatype py_error = KeyError string | IndexError | ZeroDivisionError | OverflowError

subsection \<open>The random module\<close>

text \<open>
  A generator state has type \<open>'g\<close>. \<open>random_seed\<close> is the state that \<^verbatim>\<open>random.seed(s)\<close>
  installs (and that \<^verbatim>\<open>random.Random(s)\<close> starts from), \<open>random_random\<close> is one call of
  \<^verbatim>\<open>random()\<close> and \<open>random_randint\<close> one call of \<^verbatim>\<open>randint(a, b)\<close>; each draw returns the
  value and the state that follows.
\<close>

record 'g py_random =
  random_seed :: "int \<Rightarrow> 'g"
  random_random :: "'g \<Rightarrow> real \<times> 'g"
  random_randint :: "int \<Rightarrow> int \<Rightarrow> 'g \<Rightarrow> int \<times> 'g"

text \<open>
  The library documents \<^verbatim>\<open>random()\<close> as a float in \<open>[0.0, 1.0)\<close> and \<^verbatim>\<open>randint(a, b)\<close> as
  an integer \<open>N\<close> with \<open>a \<le> N \<le> b\<close>.
\<close>

definition random_spec :: "'g py_random \<Rightarrow> bool" where
  "random_spec R \<longleftrightarrow>
     (\<forall>g. 0 \<le> fst (random_random R g) \<and> fst (random_random R g) < 1) \<and>
     (\<forall>a b g. a \<le> b \<longrightarrow> a \<le> fst (random_randint R a b g) \<and> fst (random_randint R a b g) \<le> b)"

text \<open>
  \<^verbatim>\<open>uniform(a, b)\<close> is \<^verbatim>\<open>a + (b - a) * self.random()\<close> in the library. The generator is a
  parameter, so a draw is kept as the exact real; which float it is plays no part below.
\<close>

definition uniform :: "'g py_random \<Rightarrow> real \<Rightarrow> real \<Rightarrow> 'g \<Rightarrow> real \<times> 'g" where
  "uniform R a b g = (case random_random R g of (u, g') \<Rightarrow> (a + (b - a) * u, g'))"

subsection \<open>Binary64 arithmetic\<close>

text \<open>
  \<open>round_half_even y\<close> is the integer nearest to \<open>y\<close>, a tie going to the even one.
  \<open>binary64 x\<close> is the float nearest to the real \<open>x\<close>: a significand of 53 bits, a tie going
  to the even significand. With \<open>2^e \<le> |x| < 2^(e+1)\<close> the floats around \<open>x\<close> are the multiples
  of \<open>2^(e-52)\<close>. This is the rounding of the normal range, \<open>2^-1022 \<le> |x| < 2^1024\<close>;
  \<^verbatim>\<open>generate_demo\<close> computes with values between \<open>2^-5\<close> and \<open>2\<close>. A decimal literal such as
  \<^verbatim>\<open>0.7\<close> is the float \<open>binary64 0.7\<close>; the literals \<^verbatim>\<open>0.0\<close>, \<^verbatim>\<open>0.5\<close>, \<^verbatim>\<open>1\<close>, \<^verbatim>\<open>1.0\<close> and \<^verbatim>\<open>1.25\<close> are
  floats themselves. \<^verbatim>\<open>x - y\<close> and \<^verbatim>\<open>x * y\<close> on floats are the exact result, rounded.
\<close>

definition round_half_even :: "real \<Rightarrow> int" where
  "round_half_even y =
     (let f = \<lfloor>y\<rfloor>; d = y - of_int f
      in if d < 1 / 2 then f else if 1 / 2 < d then f + 1
         else if even f then f else f + 1)"

definition binary64 :: "real \<Rightarrow> real" where
  "binary64 x =
     (if x = 0 then 0
      else let u = 2 powr (of_int \<lfloor>log 2 \<bar>x\<bar>\<rfloor> - 52)
           in of_int (round_half_even (x / u)) * u)"

definition float_sub :: "real \<Rightarrow> real \<Rightarrow> real" where
  "float_sub x y = binary64 (x - y)"

definition float_mul :: "real \<Rightarrow> real \<Rightarrow> real" where
  "float_mul x y = binary64 (x * y)"

subsection \<open>round(x, 2)\<close>

text \<open>
  \<^verbatim>\<open>round(x, 2)\<close> takes the multiple of one hundredth nearest to the value of the float
  \<open>x\<close>, a tie going to the even hundredth, and returns the float nearest to that hundredth.
  \<open>py_round2 x\<close> is the hundredth: a value rounded to two decimals is kept as the multiple
  of \<open>1/100\<close> that Python prints for it, and \<open>binary64\<close> gives the float it stands for where
  the program computes with it.
\<close>

definition py_round2 :: "real \<Rightarrow> real" where
  "py_round2 x =
     (let y = x * 100; f = \<lfloor>y\<rfloor>; d = y - of_int f
      in of_int (if d < 1 / 2 then f else if 1 / 2 < d then f + 1
                 else if even f then f else f + 1) / 100)"

subsection \<open>Formatting an integer with the format specification 03d\<close>

fun str_nat :: "nat \<Rightarrow> string" where
  "str_nat n = (if n < 10 then [''0123456789'' ! n]
                else str_nat (n div 10) @ [''0123456789'' ! (n mod 10)])"

declare str_nat.simps [simp del]

definition zfill :: "nat \<Rightarrow> string \<Rightarrow> string" where
  "zfill w s = replicate (w - length s) CHR ''0'' @ s"

text \<open>
  \<^verbatim>\<open>f"{i:03d}"\<close>: at least three characters, zeros between the sign and the digits.
\<close>

definition format_03d :: "int \<Rightarrow> string" where
  "format_03d i = (if i < 0 then CHR ''-'' # zfill 2 (str_nat (nat (- i)))
                   else zfill 3 (str_nat (nat i)))"

section \<open>generate_demo\<close>

record row =
  Molecule :: string
  Activity :: real
  Toxicity :: real
  Composite_score :: real
  Status :: string

text \<open>
  One pass of the loop body for index \<open>i\<close>: two draws from the generator, then the
  derived fields. The generator is the module-level one, so its state is threaded through.
  \<open>activity\<close> and \<open>toxicity\<close> are hundredths; the score and the comparisons of the label
  are computed on the floats they stand for, \<^verbatim>\<open>activity * (1 - toxicity) * 1.25\<close> from left to
  right.
\<close>

definition demo_row :: "'g py_random \<Rightarrow> int \<Rightarrow> 'g \<Rightarrow> row \<times> 'g" where
  "demo_row R i g =
     (case uniform R 0.30 0.95 g of (a, g1) \<Rightarrow>
      case uniform R 0.10 0.80 g1 of (t, g2) \<Rightarrow>
        (let activity = py_round2 a;
             toxicity = py_round2 t;
             score = max 0.0 (min 1.0
                       (float_mul (float_mul (binary64 activity) (float_sub 1 (binary64 toxicity)))
                          1.25));
             label = (if binary64 activity \<ge> binary64 0.7 \<and> binary64 toxicity \<le> binary64 0.5
                      then ''priority'' else ''reserve'')
         in (\<lparr>Molecule = ''Mol-'' @ format_03d i, Activity = activity, Toxicity = toxicity,
              Composite_score = py_round2 score, Status = label\<rparr>, g2)))"

text \<open>The loop \<^verbatim>\<open>for i in range(1, n+1)\<close>, over the list of its indices.\<close>

fun demo_rows :: "'g py_random \<Rightarrow> int list \<Rightarrow> 'g \<Rightarrow> row list \<times> 'g" where
  "demo_rows R [] g = ([], g)"
| "demo_rows R (i # js) g =
     (case demo_row R i g of (r, g1) \<Rightarrow>
      case demo_rows R js g1 of (rs, g2) \<Rightarrow> (r # rs, g2))"

text \<open>
  \<^verbatim>\<open>pd.DataFrame(rows).sort_values("Composite score", ascending=False)\<close> takes the library's
  default algorithm (\<^verbatim>\<open>kind="quicksort"\<close>), which pandas documents as not stable: only
  \<^verbatim>\<open>mergesort\<close> and \<^verbatim>\<open>stable\<close> are. What the call is documented to give is the same rows, in
  non-increasing order of the column. The sort is a parameter held to that contract; the
  order in which it leaves rows of equal score is the library's and is left open.
\<close>

definition sort_values_spec :: "(row list \<Rightarrow> row list) \<Rightarrow> bool" where
  "sort_values_spec sort_values \<longleftrightarrow>
     (\<forall>rows. mset (sort_values rows) = mset rows \<and>
             sorted_wrt (\<lambda>a b. Composite_score a \<ge> Composite_score b) (sort_values rows))"

text \<open>
  \<open>generate_demo sort_values R n seed g\<close> runs the function with the module-level
  generator in state \<open>g\<close>; it returns the data frame (or the exception raised) and the
  state the module-level generator is left in. \<^verbatim>\<open>random.seed(seed)\<close> overwrites \<open>g\<close>.
  A frame built from an empty list has no columns, so sorting it by
  \<^verbatim>\<open>"Composite score"\<close> raises \<^verbatim>\<open>KeyError\<close>.
\<close>

definition generate_demo ::
  "(row list \<Rightarrow> row list) \<Rightarrow> 'g py_random \<Rightarrow> int \<Rightarrow> int \<Rightarrow> 'g \<Rightarrow> (py_error + row list) \<times> 'g" where
  "generate_demo sort_values R n seed g =
     (case demo_rows R [1..n] (random_seed R seed) of (rows, g') \<Rightarrow>
        (if rows = [] then Inl (KeyError ''Composite score'') else Inr (sort_values rows), g'))"

section \<open>molecule_svg\<close>

subsection \<open>Library calls that can raise\<close>

text \<open>
  An integer converts to a float when it rounds to a finite binary64 value, that is when
  its magnitude is below \<open>2^1024 - 2^970\<close> (\<open>float_range\<close>); otherwise the conversion raises
  \<^verbatim>\<open>OverflowError\<close>. \<open>float_of_int\<close> is the conversion that a mixed product such as
  \<^verbatim>\<open>size*0.26\<close> performs, \<open>int_truediv\<close> is \<^verbatim>\<open>/\<close> on two integers, \<open>float_div\<close> is \<^verbatim>\<open>/\<close> on two
  floats.
\<close>

definition float_range :: "real \<Rightarrow> bool" where
  "float_range x \<longleftrightarrow> \<bar>x\<bar> < 2 ^ 1024 - 2 ^ 970"

definition float_of_int :: "int \<Rightarrow> py_error + real" where
  "float_of_int i =
     (if float_range (real_of_int i) then Inr (real_of_int i) else Inl OverflowError)"

definition int_truediv :: "int \<Rightarrow> int \<Rightarrow> py_error + real" where
  "int_truediv a b =
     (if b = 0 then Inl ZeroDivisionError
      else if float_range (real_of_int a / real_of_int b)
      then Inr (real_of_int a / real_of_int b) else Inl OverflowError)"

definition float_div :: "real \<Rightarrow> real \<Rightarrow> py_error + real" where
  "float_div a b = (if b = 0 then Inl ZeroDivisionError else Inr (a / b))"

text \<open>\<^verbatim>\<open>xs[i]\<close>: an index below zero counts from the end, one outside the list raises.\<close>

definition py_index :: "'a list \<Rightarrow> int \<Rightarrow> py_error + 'a" where
  "py_index xs i =
     (if 0 \<le> i \<and> i < int (length xs) then Inr (xs ! nat i)
      else if - int (length xs) \<le> i \<and> i < 0 then Inr (xs ! nat (int (length xs) + i))
      else Inl IndexError)"

definition hypot :: "real \<Rightarrow> real \<Rightarrow> real" where
  "hypot x y = sqrt (x\<^sup>2 + y\<^sup>2)"

text \<open>\<^verbatim>\<open>L or 1\<close>: the float \<open>0.0\<close> is false, so a zero length is replaced by \<open>1\<close>.\<close>

definition or_1 :: "real \<Rightarrow> real" where
  "or_1 L = (if L = 0 then 1 else L)"

text \<open>An exception ends the call: the rest runs only on a value.\<close>

definition bind_err :: "'e + 'a \<Rightarrow> ('a \<Rightarrow> 'e + 'b) \<Rightarrow> 'e + 'b" where
  "bind_err m f = (case m of Inl e \<Rightarrow> Inl e | Inr x \<Rightarrow> f x)"

fun map_err :: "('a \<Rightarrow> 'e + 'b) \<Rightarrow> 'a list \<Rightarrow> 'e + 'b list" where
  "map_err f [] = Inr []"
| "map_err f (x # xs) = bind_err (f x) (\<lambda>y. bind_err (map_err f xs) (\<lambda>ys. Inr (y # ys)))"

subsection \<open>The drawing\<close>

text \<open>
  The function returns one string, put together from formatted elements. The embedding
  keeps each element with its numbers, before they are printed to two decimals:
  \<open>Line x1 y1 x2 y2 w col cap\<close> is what the local function \<^verbatim>\<open>line\<close> formats, \<open>Circle cx cy r fill\<close>
  a \<^verbatim>\<open><circle>\<close> element, and a document lists the holes of the final f-string in their
  order. Printing cannot raise and is a function of these values.
\<close>

datatype svg_elem =
  Line real real real real real string string
| Circle real real real string

record svg_doc =
  svg_size :: int
  svg_bg :: svg_elem
  svg_edges :: "svg_elem list"
  svg_dbl :: "svg_elem list"
  svg_subs :: "svg_elem list"

definition A_TEAL :: string where
  "A_TEAL = ''#27B3B1''"

definition stroke :: string where
  "stroke = ''#111827''"

text \<open>\<^verbatim>\<open>line(*pts[i], *pts[(i+1)%6], w=1.8)\<close>, with the default colour and cap.\<close>

definition edge_line :: "(real \<times> real) list \<Rightarrow> int \<Rightarrow> py_error + svg_elem" where
  "edge_line pts i =
     bind_err (py_index pts i) (\<lambda>(x1, y1).
     bind_err (py_index pts ((i + 1) mod 6)) (\<lambda>(x2, y2).
       Inr (Line x1 y1 x2 y2 1.8 stroke ''round'')))"

text \<open>The body of the loop \<^verbatim>\<open>for i in range(0,6,2)\<close>.\<close>

definition dbl_line :: "(real \<times> real) list \<Rightarrow> int \<Rightarrow> py_error + svg_elem" where
  "dbl_line pts i =
     bind_err (py_index pts i) (\<lambda>(x1, y1).
     bind_err (py_index pts ((i + 1) mod 6)) (\<lambda>(x2, y2).
       let dx = x2 - x1; dy = y2 - y1; L = or_1 (hypot dx dy) in
       bind_err (float_div (- dy) L) (\<lambda>q1.
       bind_err (float_div dx L) (\<lambda>q2.
         let ox = q1 * 2.0; oy = q2 * 2.0 in
         Inr (Line (x1 + ox) (y1 + oy) (x2 + ox) (y2 + oy) 1.2 ''#1F2937'' ''round'')))))"

text \<open>
  The loop \<^verbatim>\<open>for _ in range(n_sub)\<close>, by the number of passes left; \<open>g\<close> is the state of
  the local generator \<^verbatim>\<open>rng\<close>, \<open>sz\<close> the size as a float.
\<close>

fun subs_loop ::
  "'g py_random \<Rightarrow> (real \<times> real) list \<Rightarrow> real \<Rightarrow> real \<Rightarrow> real \<Rightarrow> nat \<Rightarrow> 'g \<Rightarrow> py_error + svg_elem list" where
  "subs_loop R pts cx cy sz 0 g = Inr []"
| "subs_loop R pts cx cy sz (Suc k) g =
     (case random_randint R 0 5 g of (i, g') \<Rightarrow>
      bind_err (py_index pts i) (\<lambda>(x1, y1).
        let vx = x1 - cx; vy = y1 - cy; L = or_1 (hypot vx vy) in
        bind_err (float_div vx L) (\<lambda>ux.
        bind_err (float_div vy L) (\<lambda>uy.
          let L2 = sz * 0.24; x3 = x1 + ux * L2; y3 = y1 + uy * L2 in
          bind_err (subs_loop R pts cx cy sz k g') (\<lambda>rest.
            Inr (Line x1 y1 x3 y3 1.5 ''#243045'' ''round'' #
                 Circle x3 y3 1.8 ''#0F172A'' # rest))))))"

text \<open>The loop \<^verbatim>\<open>for k in range(6)\<close> that fills \<^verbatim>\<open>pts\<close>.\<close>

definition hexagon :: "real \<Rightarrow> real \<Rightarrow> real \<Rightarrow> real \<Rightarrow> (real \<times> real) list" where
  "hexagon cx cy r rot =
     map (\<lambda>k. (cx + r * cos (rot + real_of_int k * (pi / 3)),
                cy + r * sin (rot + real_of_int k * (pi / 3)))) [0..5]"

text \<open>
  \<open>hash\<close> is the built-in string hash of the running process. \<^verbatim>\<open>random.Random(...)\<close> makes
  a generator of the function's own, so no state is passed in or out. The number of
  substituents is drawn from a second local generator. Once \<^verbatim>\<open>size*0.26\<close> has converted
  the size to a float, the later products \<^verbatim>\<open>size*0.44\<close> and \<^verbatim>\<open>size*0.24\<close> convert the same
  integer and cannot raise; they use the converted value \<open>sz\<close>.
\<close>

definition molecule_svg ::
  "(string \<Rightarrow> int) \<Rightarrow> 'g py_random \<Rightarrow> string \<Rightarrow> int \<Rightarrow> py_error + svg_doc" where
  "molecule_svg hash R name size_px =
     (let rng = random_seed R (hash name mod 10 ^ 7) in
      bind_err (int_truediv size_px 2) (\<lambda>cx.
      bind_err (int_truediv size_px 2) (\<lambda>cy.
      bind_err (float_of_int size_px) (\<lambda>sz.
        let r = sz * 0.26 in
        case uniform R 0 (pi / 3) rng of (rot, rng1) \<Rightarrow>
        let pts = hexagon cx cy r rot;
            bg = Circle cx cy (sz * 0.44) (A_TEAL @ ''11'') in
        bind_err (map_err (edge_line pts) [0..5]) (\<lambda>edges.
        bind_err (map_err (dbl_line pts) [0, 2, 4]) (\<lambda>dbl.
          let n_sub = fst (random_randint R 1 3 (random_seed R (hash name mod 10 ^ 6))) in
          bind_err (subs_loop R pts cx cy sz (nat n_sub) rng1) (\<lambda>subs.
            Inr \<lparr>svg_size = size_px, svg_bg = bg, svg_edges = edges, svg_dbl = dbl,
                 svg_subs = subs\<rparr>)))))))"

section \<open>Instances of the library parameters\<close>

text \<open>
  A small linear congruential generator, a sort that keeps the documented contract of
  \<^verbatim>\<open>sort_values\<close> and a salted string hash. They show that the contracts assumed below can
  be met, and they stand for the libraries at the concrete inputs evaluated below.
\<close>

definition lcg_next :: "int \<Rightarrow> int" where
  "lcg_next g = (1103515245 * g + 12345) mod 2147483648"

definition lcg :: "int py_random" where
  "lcg = \<lparr>random_seed = (\<lambda>s. \<bar>s\<bar> mod 2147483648),
          random_random = (\<lambda>g. (real_of_int (g mod 1000) / 1000, lcg_next g)),
          random_randint = (\<lambda>a b g. (a + g mod (b - a + 1), lcg_next g))\<rparr>"

fun insert_desc :: "row \<Rightarrow> row list \<Rightarrow> row list" where
  "insert_desc x [] = [x]"
| "insert_desc x (y # ys) =
     (if Composite_score y \<le> Composite_score x then x # y # ys else y # insert_desc x ys)"

definition sort_desc_unstable :: "row list \<Rightarrow> row list" where
  "sort_desc_unstable rows = foldl (\<lambda>acc x. insert_desc x acc) [] rows"

definition salted_hash :: "int \<Rightarrow> string \<Rightarrow> int" where
  "salted_hash salt s = foldl (\<lambda>h c. (31 * h + of_char c) mod 2305843009213693951) salt s"

section \<open>The properties, as predicates\<close>

definition row_in_range :: "row \<Rightarrow> bool" where
  "row_in_range r \<longleftrightarrow>
     0.30 \<le> Activity r \<and> Activity r \<le> 0.95 \<and>
     0.10 \<le> Toxicity r \<and> Toxicity r \<le> 0.80 \<and>
     0.0 \<le> Composite_score r \<and> Composite_score r \<le> 1.0"

text \<open>
  \<^verbatim>\<open>round(max(0, min(1, activity * (1 - toxicity) * 1.25)), 2)\<close> as Python evaluates it on
  the floats of an activity and a toxicity given as hundredths.
\<close>

definition composite_of :: "real \<Rightarrow> real \<Rightarrow> real" where
  "composite_of activity toxicity =
     py_round2 (max 0 (min 1
       (float_mul (float_mul (binary64 activity) (float_sub 1 (binary64 toxicity))) 1.25)))"

text \<open>
  The derived fields of a row. The score is that value; it is a hundredth, and it lies
  within half a hundredth, and the rounding error of the binary64 product, of the clamped
  product taken over the real numbers. The status is \<open>priority\<close> exactly when the activity
  is at least 0.70 and the toxicity at most 0.50, and \<open>reserve\<close> otherwise.
\<close>

definition row_derived :: "row \<Rightarrow> bool" where
  "row_derived r \<longleftrightarrow>
     Composite_score r = composite_of (Activity r) (Toxicity r) \<and>
     (\<exists>k. Composite_score r = of_int k / 100) \<and>
     \<bar>Composite_score r - max 0 (min 1 (Activity r * (1 - Toxicity r) * 1.25))\<bar>
       \<le> 1 / 200 + 1 / 10 ^ 14 \<and>
     (Status r = ''priority'' \<longleftrightarrow> Activity r \<ge> 0.70 \<and> Toxicity r \<le> 0.50) \<and>
     (Status r \<noteq> ''priority'' \<longleftrightarrow> Status r = ''reserve'')"

subsection \<open>The name of a row\<close>

text \<open>
  Reading a decimal numeral: \<open>is_digit\<close> holds of the characters \<open>0\<close> to \<open>9\<close> (codes 48 to
  57), \<open>digit_val\<close> is the digit a character shows and \<open>parse_nat\<close> the number a string of
  digits shows. \<open>digit_char d\<close> is the character of the digit \<open>d\<close>.
\<close>

definition is_digit :: "char \<Rightarrow> bool" where
  "is_digit c \<longleftrightarrow> 48 \<le> (of_char c :: nat) \<and> (of_char c :: nat) \<le> 57"

definition digit_val :: "char \<Rightarrow> nat" where
  "digit_val c = of_char c - 48"

definition parse_nat :: "string \<Rightarrow> nat" where
  "parse_nat s = foldl (\<lambda>a c. 10 * a + digit_val c) 0 s"

definition digit_char :: "nat \<Rightarrow> char" where
  "digit_char d = char_of (48 + d)"

text \<open>
  Following the spec: a number below 1000 zero-padded to 3 digits is its hundreds, tens
  and units digit.
\<close>

definition zero_pad_3 :: "nat \<Rightarrow> string" where
  "zero_pad_3 k = [digit_char (k div 100), digit_char (k div 10 mod 10), digit_char (k mod 10)]"

text \<open>
  \<open>s\<close> is the name of the row of index \<open>k\<close>: \<open>Mol-\<close>, then decimal digits that show \<open>k\<close>, at
  least three of them, a longer numeral not starting with a zero; for \<open>k\<close> below 1000
  these are the three digits of \<open>zero_pad_3\<close>.
\<close>

definition name_of_index :: "nat \<Rightarrow> string \<Rightarrow> bool" where
  "name_of_index k s \<longleftrightarrow>
     take 4 s = ''Mol-'' \<and>
     (let ds = drop 4 s
      in list_all is_digit ds \<and> parse_nat ds = k \<and> 3 \<le> length ds \<and>
         (3 < length ds \<longrightarrow> hd ds \<noteq> CHR ''0'') \<and>
         (k < 1000 \<longrightarrow> ds = zero_pad_3 k))"

subsection \<open>The structure of an icon\<close>

fun line_from :: "svg_elem \<Rightarrow> real \<times> real" where
  "line_from (Line x1 y1 x2 y2 w col cap) = (x1, y1)"
| "line_from (Circle cx cy r fill) = (cx, cy)"

fun line_to :: "svg_elem \<Rightarrow> real \<times> real" where
  "line_to (Line x1 y1 x2 y2 w col cap) = (x2, y2)"
| "line_to (Circle cx cy r fill) = (cx, cy)"

text \<open>An outer edge: a line of width 1.8 in the default colour.\<close>

definition outer_edge :: "svg_elem \<Rightarrow> bool" where
  "outer_edge e \<longleftrightarrow> (\<exists>x1 y1 x2 y2. e = Line x1 y1 x2 y2 1.8 stroke ''round'')"

text \<open>
  \<open>d\<close> is the edge \<open>e\<close> moved by an offset of length 2 at a right angle to the edge, drawn
  with width 1.2.
\<close>

definition offset_of :: "svg_elem \<Rightarrow> svg_elem \<Rightarrow> bool" where
  "offset_of e d \<longleftrightarrow>
     (\<exists>ox oy. d = Line (fst (line_from e) + ox) (snd (line_from e) + oy)
                       (fst (line_to e) + ox) (snd (line_to e) + oy) 1.2 ''#1F2937'' ''round'' \<and>
              hypot ox oy = 2 \<and>
              ox * (fst (line_to e) - fst (line_from e)) +
              oy * (snd (line_to e) - snd (line_from e)) = 0)"

text \<open>
  A substituent: a line that starts at one of the vertices, runs \<open>len\<close> away from the
  centre \<open>(cx, cy)\<close> along the ray through that vertex, and a dot of radius 1.8 at its end.
\<close>

definition substituent ::
  "(real \<times> real) list \<Rightarrow> real \<Rightarrow> real \<Rightarrow> real \<Rightarrow> svg_elem \<times> svg_elem \<Rightarrow> bool" where
  "substituent vertices cx cy len p \<longleftrightarrow>
     (\<exists>x1 y1 x3 y3.
        fst p = Line x1 y1 x3 y3 1.5 ''#243045'' ''round'' \<and>
        snd p = Circle x3 y3 1.8 ''#0F172A'' \<and>
        (x1, y1) \<in> set vertices \<and>
        hypot (x3 - x1) (y3 - y1) = len \<and>
        hypot (x3 - cx) (y3 - cy) = hypot (x1 - cx) (y1 - cy) + len)"

text \<open>The list \<^verbatim>\<open>subs\<close> that holds the given line-and-dot pairs, in order.\<close>

definition flatten_pairs :: "('a \<times> 'a) list \<Rightarrow> 'a list" where
  "flatten_pairs ps = concat (map (\<lambda>p. [fst p, snd p]) ps)"

definition icon_structure :: "int \<Rightarrow> svg_doc \<Rightarrow> bool" where
  "icon_structure size_px doc \<longleftrightarrow>
     length (svg_edges doc) = 6 \<and> list_all outer_edge (svg_edges doc) \<and>
     list_all (\<lambda>i. line_to (svg_edges doc ! i) = line_from (svg_edges doc ! ((i + 1) mod 6)))
       [0..<6] \<and>
     length (svg_dbl doc) = 3 \<and>
     list_all (\<lambda>j. offset_of (svg_edges doc ! (2 * j)) (svg_dbl doc ! j)) [0..<3] \<and>
     (\<exists>ps. svg_subs doc = flatten_pairs ps \<and> 1 \<le> length ps \<and> length ps \<le> 3 \<and>
           list_all (substituent (map line_from (svg_edges doc))
                       (real_of_int size_px / 2) (real_of_int size_px / 2)
                       (0.24 * real_of_int size_px)) ps)"

subsection \<open>Auxiliary definitions for the proofs\<close>

text \<open>What \<open>edge_line\<close> and \<open>dbl_line\<close> return when nothing raises.\<close>

definition edge_of :: "(real \<times> real) list \<Rightarrow> int \<Rightarrow> svg_elem" where
  "edge_of pts i =
     Line (fst (pts ! nat i)) (snd (pts ! nat i))
          (fst (pts ! nat ((i + 1) mod 6))) (snd (pts ! nat ((i + 1) mod 6))) 1.8 stroke ''round''"

definition dbl_of :: "(real \<times> real) list \<Rightarrow> int \<Rightarrow> svg_elem" where
  "dbl_of pts i =
     (let x1 = fst (pts ! nat i); y1 = snd (pts ! nat i);
          x2 = fst (pts ! nat ((i + 1) mod 6)); y2 = snd (pts ! nat ((i + 1) mod 6));
          dx = x2 - x1; dy = y2 - y1; L = or_1 (hypot dx dy);
          ox = (- dy) / L * 2.0; oy = dx / L * 2.0
      in Line (x1 + ox) (y1 + oy) (x2 + ox) (y2 + oy) 1.2 ''#1F2937'' ''round'')"

text \<open>The vertices \<^verbatim>\<open>pts\<close> of a call.\<close>

definition icon_points :: "(string \<Rightarrow> int) \<Rightarrow> 'g py_random \<Rightarrow> string \<Rightarrow> int \<Rightarrow> (real \<times> real) list" where
  "icon_points hash R name size_px =
     hexagon (real_of_int size_px / 2) (real_of_int size_px / 2) (real_of_int size_px * 0.26)
       (fst (uniform R 0 (pi / 3) (random_seed R (hash name mod 10 ^ 7))))"

text \<open>The number \<^verbatim>\<open>n_sub\<close> of a call.\<close>

definition n_sub :: "(string \<Rightarrow> int) \<Rightarrow> 'g py_random \<Rightarrow> string \<Rightarrow> int" where
  "n_sub hash R name = fst (random_randint R 1 3 (random_seed R (hash name mod 10 ^ 6)))"

text \<open>One pass of \<open>subs_loop\<close> at the vertex of index \<open>i\<close>.\<close>

definition sub_of :: "(real \<times> real) list \<Rightarrow> real \<Rightarrow> real \<Rightarrow> real \<Rightarrow> nat \<Rightarrow> svg_elem \<times> svg_elem" where
  "sub_of pts cx cy sz i =
     (let x1 = fst (pts ! i); y1 = snd (pts ! i);
          L = or_1 (hypot (x1 - cx) (y1 - cy));
          x3 = x1 + (x1 - cx) / L * (sz * 0.24); y3 = y1 + (y1 - cy) / L * (sz * 0.24)
      in (Line x1 y1 x3 y3 1.5 ''#243045'' ''round'', Circle x3 y3 1.8 ''#0F172A''))"

section \<open>Library facts\<close>

lemma py_round2_cases:
  "py_round2 x = of_int \<lfloor>x * 100\<rfloor> / 100 \<or>
   (py_round2 x = of_int (\<lfloor>x * 100\<rfloor> + 1) / 100 \<and> of_int \<lfloor>x * 100\<rfloor> < x * 100)"
  by (auto simp: py_round2_def Let_def)

lemma py_round2_ge:
  assumes "of_int k / 100 \<le> x"
  shows "of_int k / 100 \<le> py_round2 x"
proof -
  from assms have "of_int k \<le> x * 100" by simp
  then have k: "k \<le> \<lfloor>x * 100\<rfloor>" by (simp add: le_floor_iff)
  from py_round2_cases [of x] show ?thesis
  proof
    assume "py_round2 x = of_int \<lfloor>x * 100\<rfloor> / 100"
    with k show ?thesis by (simp add: divide_right_mono)
  next
    assume "py_round2 x = of_int (\<lfloor>x * 100\<rfloor> + 1) / 100 \<and> of_int \<lfloor>x * 100\<rfloor> < x * 100"
    then have "py_round2 x = of_int (\<lfloor>x * 100\<rfloor> + 1) / 100" by simp
    moreover from k have "(of_int k :: real) \<le> of_int (\<lfloor>x * 100\<rfloor> + 1)" by linarith
    ultimately show ?thesis by (simp add: divide_right_mono)
  qed
qed

lemma py_round2_le:
  assumes "x \<le> of_int k / 100"
  shows "py_round2 x \<le> of_int k / 100"
proof -
  from assms have xk: "x * 100 \<le> of_int k" by simp
  then have k: "\<lfloor>x * 100\<rfloor> \<le> k" by (simp add: floor_le_iff) 
  from py_round2_cases [of x] show ?thesis
  proof
    assume "py_round2 x = of_int \<lfloor>x * 100\<rfloor> / 100"
    with k show ?thesis by (simp add: divide_right_mono)
  next
    assume a: "py_round2 x = of_int (\<lfloor>x * 100\<rfloor> + 1) / 100 \<and> of_int \<lfloor>x * 100\<rfloor> < x * 100"
    then have "of_int \<lfloor>x * 100\<rfloor> < (of_int k :: real)" using xk by linarith
    then have "\<lfloor>x * 100\<rfloor> + 1 \<le> k" by simp
    then have "(of_int (\<lfloor>x * 100\<rfloor> + 1) :: real) \<le> of_int k" by (simp only: of_int_le_iff)
    with a show ?thesis by (simp add: divide_right_mono)
  qed
qed

lemma uniform_range:
  assumes "random_spec R" "a \<le> b"
  shows "a \<le> fst (uniform R a b g) \<and> fst (uniform R a b g) \<le> b"
proof -
  obtain u g' where d: "random_random R g = (u, g')" by (cases "random_random R g")
  from assms(1) have "0 \<le> fst (random_random R g) \<and> fst (random_random R g) < 1"
    unfolding random_spec_def by blast
  with d have u: "0 \<le> u" "u < 1" by simp_all
  from assms(2) have ba: "0 \<le> b - a" by simp
  have "0 \<le> (b - a) * u" using ba u by simp
  moreover have "(b - a) * u \<le> (b - a) * 1" using ba u by (intro mult_left_mono) simp_all
  ultimately show ?thesis using d by (simp add: uniform_def)
qed

subsection \<open>Rounding\<close>

lemma round_half_even_error: "\<bar>of_int (round_half_even y) - y\<bar> \<le> 1 / 2"
  unfolding round_half_even_def Let_def by (auto simp: abs_if) linarith+

lemma binary64_error: "\<bar>binary64 x - x\<bar> \<le> \<bar>x\<bar> / 2 ^ 53"
proof (cases "x = 0")
  case True
  then show ?thesis by (simp add: binary64_def)
next
  case False
  define e where "e = \<lfloor>log 2 \<bar>x\<bar>\<rfloor>"
  define u where "u = (2::real) powr (of_int e - 52)"
  have upos: "0 < u" by (simp add: u_def)
  from False have ax: "0 < \<bar>x\<bar>" by simp
  have "\<lfloor>log 2 \<bar>x\<bar>\<rfloor> = e" by (simp add: e_def)
  then have le: "2 powr of_int e \<le> \<bar>x\<bar>"
    using floor_log_eq_powr_iff [OF ax, of 2 e] by simp
  have "(2::real) powr 52 = 2 ^ 52" by (rule powr_numeral) simp
  then have u2: "u = 2 powr of_int e / 2 ^ 52" unfolding u_def by (simp add: powr_diff)
  have ux: "u \<le> \<bar>x\<bar> / 2 ^ 52" unfolding u2 using le by (simp add: divide_right_mono)
  have b: "binary64 x = of_int (round_half_even (x / u)) * u"
    using False by (simp add: binary64_def Let_def e_def u_def)
  have "binary64 x - x = (of_int (round_half_even (x / u)) - x / u) * u"
    unfolding b using upos by (simp add: algebra_simps)
  then have "\<bar>binary64 x - x\<bar> = \<bar>of_int (round_half_even (x / u)) - x / u\<bar> * u"
    using upos by (simp add: abs_mult)
  also have "\<dots> \<le> (1 / 2) * u"
    using upos by (intro mult_right_mono round_half_even_error) simp
  also have "\<dots> \<le> (1 / 2) * (\<bar>x\<bar> / 2 ^ 52)"
    using ux by simp
  also have "\<dots> = \<bar>x\<bar> / 2 ^ 53" by simp
  finally show ?thesis .
qed

lemma binary64_near:
  assumes "\<bar>x\<bar> \<le> 2"
  shows "\<bar>binary64 x - x\<bar> \<le> 1 / 2 ^ 52"
proof -
  have "\<bar>binary64 x - x\<bar> \<le> \<bar>x\<bar> / 2 ^ 53" by (rule binary64_error)
  also have "\<dots> \<le> 2 / 2 ^ 53" using assms by (simp add: divide_right_mono)
  also have "\<dots> = 1 / 2 ^ 52" by simp
  finally show ?thesis .
qed

lemma binary64_eval:
  assumes "1 / 2 ^ k \<le> x" "x < 2 / 2 ^ k"
  shows "binary64 x = of_int (round_half_even (x * 2 ^ (52 + k))) / 2 ^ (52 + k)"
proof -
  have "(0::real) < 1 / 2 ^ k" by simp
  with assms(1) have x0: "0 < x" by linarith
  have p1: "(2::real) powr of_int (- int k) = 1 / 2 ^ k"
    by (simp add: powr_minus powr_realpow inverse_eq_divide)
  have "(2::real) powr (of_int (- int k) + 1) = 2 powr of_int (- int k) * 2 powr 1"
    by (rule powr_add)
  then have p2: "(2::real) powr of_int (- int k + 1) = 2 / 2 ^ k" using p1 by simp
  have "\<lfloor>log 2 x\<rfloor> = - int k"
    using floor_log_eq_powr_iff [OF x0, of 2 "- int k"] assms p1 p2 by simp
  then have fl: "\<lfloor>log 2 \<bar>x\<bar>\<rfloor> = - int k" using x0 by simp
  have "of_int (- int k) - 52 = - real (52 + k)" by simp
  then have "(2::real) powr (of_int (- int k) - 52) = 2 powr (- real (52 + k))"
    by (rule arg_cong)
  also have "\<dots> = 1 / 2 ^ (52 + k)"
    by (simp only: powr_minus powr_realpow zero_less_numeral inverse_eq_divide)
  finally have u: "(2::real) powr (of_int (- int k) - 52) = 1 / 2 ^ (52 + k)" .
  show ?thesis
    using x0 unfolding binary64_def fl u Let_def by simp
qed

lemma py_round2_round_half_even: "py_round2 x = of_int (round_half_even (x * 100)) / 100"
  by (simp add: py_round2_def round_half_even_def Let_def)

lemma py_round2_near: "\<bar>py_round2 x - x\<bar> \<le> 1 / 200"
proof -
  have "py_round2 x - x = (of_int (round_half_even (x * 100)) - x * 100) / 100"
    by (simp add: py_round2_round_half_even diff_divide_distrib)
  then have "\<bar>py_round2 x - x\<bar> = \<bar>(of_int (round_half_even (x * 100)) - x * 100) / 100\<bar>"
    by (rule arg_cong)
  also have "\<dots> = \<bar>of_int (round_half_even (x * 100)) - x * 100\<bar> / 100"
    by (simp only: abs_divide abs_numeral)
  also have "\<dots> \<le> (1 / 2) / 100"
    by (rule divide_right_mono [OF round_half_even_error]) simp
  finally show ?thesis by simp
qed

lemma clamp_near: "\<bar>max 0 (min 1 p) - max 0 (min 1 q)\<bar> \<le> \<bar>p - q\<bar>" for p q :: real
  by (simp add: max_def min_def abs_if)

lemma product_near:
  fixes a t :: real
  assumes "0 \<le> a" "a \<le> 1" "0 \<le> t" "t \<le> 1"
  shows "\<bar>float_mul (float_mul (binary64 a) (float_sub 1 (binary64 t))) 1.25 - a * (1 - t) * 1.25\<bar>
           \<le> 1 / 2 ^ 49"
proof -
  define eps :: real where "eps = 1 / 2 ^ 52"
  have eps: "0 < eps" "eps \<le> 1 / 100" by (simp_all add: eps_def)
  define A where "A = binary64 a"
  define T where "T = binary64 t"
  define s where "s = float_sub 1 T"
  define m where "m = float_mul A s"
  define p where "p = float_mul m 1.25"
  have A: "\<bar>A - a\<bar> \<le> eps" unfolding A_def eps_def using assms by (intro binary64_near) simp
  have T: "\<bar>T - t\<bar> \<le> eps" unfolding T_def eps_def using assms by (intro binary64_near) simp
  have "\<bar>1 - T\<bar> \<le> 2" using T assms eps by linarith
  then have "\<bar>s - (1 - T)\<bar> \<le> eps" unfolding s_def float_sub_def eps_def by (rule binary64_near)
  with T have s: "\<bar>s - (1 - t)\<bar> \<le> 2 * eps" by linarith
  have sb: "\<bar>s\<bar> \<le> 11 / 10" using s assms eps by linarith
  have Ab: "\<bar>A\<bar> \<le> 11 / 10" using A assms eps by linarith
  have "\<bar>A * s\<bar> = \<bar>A\<bar> * \<bar>s\<bar>" by (rule abs_mult)
  also have "\<dots> \<le> (11 / 10) * (11 / 10)" using Ab sb by (intro mult_mono) simp_all
  finally have "\<bar>A * s\<bar> \<le> 2" by simp
  then have m1: "\<bar>m - A * s\<bar> \<le> eps" unfolding m_def float_mul_def eps_def by (rule binary64_near)
  have "\<bar>(A - a) * s\<bar> = \<bar>A - a\<bar> * \<bar>s\<bar>" by (rule abs_mult)
  also have "\<dots> \<le> eps * (11 / 10)" using A sb by (intro mult_mono) simp_all
  finally have e1: "\<bar>(A - a) * s\<bar> \<le> eps * (11 / 10)" .
  have "\<bar>a * (s - (1 - t))\<bar> = \<bar>a\<bar> * \<bar>s - (1 - t)\<bar>" by (rule abs_mult)
  also have "\<dots> \<le> 1 * (2 * eps)" using assms s by (intro mult_mono) simp_all
  finally have e2: "\<bar>a * (s - (1 - t))\<bar> \<le> 2 * eps" by simp
  have "A * s - a * (1 - t) = (A - a) * s + a * (s - (1 - t))" by (simp add: algebra_simps)
  then have "\<bar>A * s - a * (1 - t)\<bar> \<le> \<bar>(A - a) * s\<bar> + \<bar>a * (s - (1 - t))\<bar>"
    by (simp only: abs_triangle_ineq)
  with e1 e2 have e3: "\<bar>A * s - a * (1 - t)\<bar> \<le> 31 / 10 * eps" by linarith
  with m1 have m: "\<bar>m - a * (1 - t)\<bar> \<le> 41 / 10 * eps" by linarith
  have "0 \<le> a * (1 - t)" using assms by simp
  moreover have "a * (1 - t) \<le> 1 * 1" using assms by (intro mult_mono) simp_all
  ultimately have mb: "\<bar>m\<bar> \<le> 11 / 10" using m eps by linarith
  have "\<bar>m * (5 / 4)\<bar> = \<bar>m\<bar> * (5 / 4)" by (simp add: abs_mult)
  with mb have "\<bar>m * (5 / 4)\<bar> \<le> 2" by linarith
  then have "\<bar>binary64 (m * (5 / 4)) - m * (5 / 4)\<bar> \<le> eps" unfolding eps_def by (rule binary64_near)
  then have p1: "\<bar>p - m * (5 / 4)\<bar> \<le> eps" unfolding p_def float_mul_def by simp
  have "\<bar>p - a * (1 - t) * (5 / 4)\<bar> \<le> 8 * eps" using p1 m by linarith
  then show ?thesis unfolding p_def m_def s_def A_def T_def eps_def by simp
qed

lemma binary64_less:
  assumes "\<bar>x\<bar> \<le> 2" "\<bar>y\<bar> \<le> 2" "x + 1 / 100 \<le> y"
  shows "binary64 x < binary64 y"
proof -
  have "\<bar>binary64 x - x\<bar> \<le> 1 / 2 ^ 52" by (rule binary64_near [OF assms(1)])
  moreover have "\<bar>binary64 y - y\<bar> \<le> 1 / 2 ^ 52" by (rule binary64_near [OF assms(2)])
  moreover have "(1::real) / 2 ^ 52 < 1 / 200" by simp
  ultimately show ?thesis using assms(3) by linarith
qed

lemma py_round2_hundredth: "\<exists>k. py_round2 x = of_int k / 100"
  unfolding py_round2_round_half_even by (rule exI) (rule refl)

lemma binary64_le_hundredths:
  fixes j k :: int
  assumes "\<bar>of_int j / 100\<bar> \<le> (2::real)" "\<bar>of_int k / 100\<bar> \<le> (2::real)"
  shows "binary64 (of_int j / 100) \<le> binary64 (of_int k / 100) \<longleftrightarrow> j \<le> k"
proof (cases "j \<le> k")
  case True
  show ?thesis
  proof (cases "j = k")
    case True
    then show ?thesis by simp
  next
    case False
    with True have "j + 1 \<le> k" by simp
    then have "(of_int j :: real) + 1 \<le> of_int k" by linarith
    then have "(of_int j :: real) / 100 + 1 / 100 \<le> of_int k / 100" by (simp add: field_simps)
    then have "binary64 (of_int j / 100) < binary64 (of_int k / 100)"
      by (rule binary64_less [OF assms])
    with True show ?thesis by simp
  qed
next
  case False
  then have "k + 1 \<le> j" by simp
  then have "(of_int k :: real) + 1 \<le> of_int j" by linarith
  then have "(of_int k :: real) / 100 + 1 / 100 \<le> of_int j / 100" by (simp add: field_simps)
  then have "binary64 (of_int k / 100) < binary64 (of_int j / 100)"
    by (rule binary64_less [OF assms(2) assms(1)])
  with False show ?thesis by simp
qed

lemma binary64_le_iff:
  assumes "\<exists>j. x = of_int j / 100" "\<exists>k. y = of_int k / 100" "\<bar>x\<bar> \<le> 2" "\<bar>y\<bar> \<le> 2"
  shows "binary64 x \<le> binary64 y \<longleftrightarrow> x \<le> y"
proof -
  from assms(1) obtain j :: int where j: "x = of_int j / 100" by blast
  from assms(2) obtain k :: int where k: "y = of_int k / 100" by blast
  have "(binary64 (of_int j / 100) \<le> binary64 (of_int k / 100)) = (j \<le> k)"
    using assms(3,4) unfolding j k by (rule binary64_le_hundredths)
  moreover have "((of_int j :: real) / 100 \<le> of_int k / 100) = (j \<le> k)" by simp
  ultimately show ?thesis unfolding j k by simp
qed

lemma composite_of_range: "0 \<le> composite_of a t \<and> composite_of a t \<le> 1"
proof -
  define s where
    "s = max 0 (min 1 (float_mul (float_mul (binary64 a) (float_sub 1 (binary64 t))) 1.25))"
  have s0: "of_int 0 / 100 \<le> s" and s1: "s \<le> of_int 100 / 100" by (simp_all add: s_def)
  have "0 \<le> py_round2 s" using py_round2_ge [OF s0] by simp
  moreover have "py_round2 s \<le> 1" using py_round2_le [OF s1] by simp
  ultimately show ?thesis unfolding composite_of_def s_def by simp
qed

lemma composite_of_near:
  assumes "0 \<le> a" "a \<le> 1" "0 \<le> t" "t \<le> 1"
  shows "\<bar>composite_of a t - max 0 (min 1 (a * (1 - t) * 1.25))\<bar> \<le> 1 / 200 + 1 / 10 ^ 14"
proof -
  define p where "p = float_mul (float_mul (binary64 a) (float_sub 1 (binary64 t))) 1.25"
  define q where "q = a * (1 - t) * 1.25"
  have "\<bar>p - q\<bar> \<le> 1 / 2 ^ 49" unfolding p_def q_def by (rule product_near [OF assms])
  moreover have "(1::real) / 2 ^ 49 \<le> 1 / 10 ^ 14" by simp
  ultimately have pq: "\<bar>p - q\<bar> \<le> 1 / 10 ^ 14" by linarith
  define cp where "cp = max 0 (min 1 p)"
  define cq where "cq = max 0 (min 1 q)"
  have "\<bar>cp - cq\<bar> \<le> \<bar>p - q\<bar>" unfolding cp_def cq_def by (rule clamp_near)
  moreover have "\<bar>py_round2 cp - cp\<bar> \<le> 1 / 200"
    by (rule py_round2_near)
  ultimately have "\<bar>py_round2 cp - cq\<bar> \<le> 1 / 200 + 1 / 10 ^ 14"
    using pq by linarith
  then show ?thesis unfolding composite_of_def p_def q_def cp_def cq_def .
qed

subsection \<open>Decimal numerals\<close>

lemma digit_val_digit: "d < 10 \<Longrightarrow> digit_val (''0123456789'' ! d) = d"
proof -
  assume "d < 10"
  then have "d \<in> {0, 1, 2, 3, 4, 5, 6, 7, 8, 9}" by auto
  then show ?thesis by (auto simp: digit_val_def)
qed

lemma parse_nat_snoc: "parse_nat (s @ [c]) = 10 * parse_nat s + digit_val c"
  by (simp add: parse_nat_def)

lemma parse_nat_str_nat: "parse_nat (str_nat n) = n"
proof (induction n rule: str_nat.induct)
  case (1 n)
  show ?case
  proof (cases "n < 10")
    case True
    then show ?thesis
      by (subst str_nat.simps) (simp add: parse_nat_def digit_val_digit)
  next
    case False
    then have "parse_nat (str_nat (n div 10)) = n div 10" using 1 by simp
    with False show ?thesis
      by (subst str_nat.simps) (simp add: parse_nat_snoc digit_val_digit)
  qed
qed

lemma parse_nat_zeros: "foldl (\<lambda>a c. 10 * a + digit_val c) 0 (replicate k CHR ''0'') = 0"
  by (induction k) (simp_all add: digit_val_def)

lemma parse_nat_zfill: "parse_nat (zfill w s) = parse_nat s"
  by (simp add: parse_nat_def zfill_def parse_nat_zeros)

lemma parse_nat_format_03d: "0 \<le> i \<Longrightarrow> parse_nat (format_03d i) = nat i"
  by (simp add: format_03d_def parse_nat_zfill parse_nat_str_nat)

lemma format_03d_inj: "0 \<le> i \<Longrightarrow> 0 \<le> j \<Longrightarrow> format_03d i = format_03d j \<Longrightarrow> i = j"
proof -
  assume ij: "0 \<le> i" "0 \<le> j" and eq: "format_03d i = format_03d j"
  from eq have "parse_nat (format_03d i) = parse_nat (format_03d j)" by simp
  with ij have "nat i = nat j" by (simp add: parse_nat_format_03d)
  with ij show "i = j" by simp
qed

lemma of_char_nth: "d < 10 \<Longrightarrow> (of_char (''0123456789'' ! d) :: nat) = 48 + d"
proof -
  assume "d < 10"
  then have "d \<in> {0, 1, 2, 3, 4, 5, 6, 7, 8, 9}" by auto
  then show ?thesis by auto
qed

lemma digit_char_nth: "d < 10 \<Longrightarrow> ''0123456789'' ! d = digit_char d"
proof -
  assume "d < 10"
  then have "(of_char (''0123456789'' ! d) :: nat) = 48 + d" by (rule of_char_nth)
  then have "char_of (48 + d) = char_of (of_char (''0123456789'' ! d) :: nat)" by simp
  then show ?thesis unfolding digit_char_def by (simp only: char_of_char)
qed

lemma digit_char_0: "digit_char 0 = CHR ''0''"
  using digit_char_nth [of 0] by simp

lemma is_digit_nth: "d < 10 \<Longrightarrow> is_digit (''0123456789'' ! d)"
proof -
  assume "d < 10"
  then have "d \<in> {0, 1, 2, 3, 4, 5, 6, 7, 8, 9}" by auto
  then show ?thesis by (auto simp: is_digit_def)
qed

lemma digit_nth_zero: "d < 10 \<Longrightarrow> ''0123456789'' ! d = CHR ''0'' \<Longrightarrow> d = 0"
proof -
  assume "d < 10"
  then have "d \<in> {0, 1, 2, 3, 4, 5, 6, 7, 8, 9}" by auto
  moreover assume "''0123456789'' ! d = CHR ''0''"
  ultimately show ?thesis by auto
qed

lemma str_nat_small: "n < 10 \<Longrightarrow> str_nat n = [''0123456789'' ! n]"
  by (subst str_nat.simps) simp

lemma str_nat_large: "10 \<le> n \<Longrightarrow> str_nat n = str_nat (n div 10) @ [''0123456789'' ! (n mod 10)]"
  by (subst str_nat.simps) simp

lemma str_nat_not_Nil: "str_nat n \<noteq> []"
  by (subst str_nat.simps) simp

lemma str_nat_digits: "list_all is_digit (str_nat n)"
proof (induction n rule: str_nat.induct)
  case (1 n)
  show ?case
  proof (cases "n < 10")
    case True
    then show ?thesis by (simp add: str_nat_small is_digit_nth)
  next
    case False
    then have "list_all is_digit (str_nat (n div 10))" using 1 by simp
    with False show ?thesis by (simp add: str_nat_large is_digit_nth)
  qed
qed

lemma hd_str_nat: "0 < n \<Longrightarrow> hd (str_nat n) \<noteq> CHR ''0''"
proof (induction n rule: str_nat.induct)
  case (1 n)
  show ?case
  proof (cases "n < 10")
    case True
    with 1(2) show ?thesis using digit_nth_zero [of n] by (auto simp: str_nat_small)
  next
    case False
    then have "0 < n div 10" by simp
    with False 1 have "hd (str_nat (n div 10)) \<noteq> CHR ''0''" by simp
    with False show ?thesis by (simp add: str_nat_large str_nat_not_Nil)
  qed
qed

lemma str_nat_1: "n < 10 \<Longrightarrow> str_nat n = [digit_char n]"
  by (simp add: str_nat_small digit_char_nth)

lemma str_nat_2: "10 \<le> n \<Longrightarrow> n < 100 \<Longrightarrow> str_nat n = [digit_char (n div 10), digit_char (n mod 10)]"
proof -
  assume n: "10 \<le> n" "n < 100"
  then have "n div 10 < 10" by simp
  then have "str_nat (n div 10) = [digit_char (n div 10)]" by (rule str_nat_1)
  moreover have "''0123456789'' ! (n mod 10) = digit_char (n mod 10)"
    by (rule digit_char_nth) simp
  ultimately show ?thesis using n(1) by (simp only: str_nat_large append.simps)
qed

lemma str_nat_3:
  "100 \<le> n \<Longrightarrow> n < 1000 \<Longrightarrow>
   str_nat n = [digit_char (n div 100), digit_char (n div 10 mod 10), digit_char (n mod 10)]"
proof -
  assume n: "100 \<le> n" "n < 1000"
  then have d: "10 \<le> n div 10" "n div 10 < 100" "10 \<le> n" by simp_all
  have "n div 10 div 10 = n div 100" by (simp add: div_mult2_eq)
  with str_nat_2 [OF d(1) d(2)]
  have "str_nat (n div 10) = [digit_char (n div 100), digit_char (n div 10 mod 10)]" by simp
  moreover have "''0123456789'' ! (n mod 10) = digit_char (n mod 10)"
    by (rule digit_char_nth) simp
  ultimately show ?thesis using d(3) by (simp only: str_nat_large append.simps)
qed

lemma zfill_3_small: "n < 1000 \<Longrightarrow> zfill 3 (str_nat n) = zero_pad_3 n"
proof -
  assume n: "n < 1000"
  consider "n < 10" | "10 \<le> n" "n < 100" | "100 \<le> n" by linarith
  then show ?thesis
  proof cases
    case 1
    then have "n div 100 = 0" "n div 10 = 0" by simp_all
    with 1 show ?thesis
      by (simp add: str_nat_1 zfill_def zero_pad_3_def digit_char_0 numeral_2_eq_2)
  next
    case 2
    then have "n div 100 = 0" "n div 10 mod 10 = n div 10" by simp_all
    with 2 show ?thesis
      by (simp add: str_nat_2 zfill_def zero_pad_3_def digit_char_0)
  next
    case 3
    with n show ?thesis
      by (simp add: str_nat_3 zfill_def zero_pad_3_def)
  qed
qed

lemma length_zfill: "length (zfill w s) = max w (length s)"
  by (simp add: zfill_def)

lemma list_all_zfill: "list_all is_digit s \<Longrightarrow> list_all is_digit (zfill w s)"
  by (auto simp: zfill_def is_digit_def list_all_iff)

lemma zfill_unpadded: "w < length (zfill w s) \<Longrightarrow> zfill w s = s"
  by (simp add: zfill_def)

lemma name_of_index_format: "name_of_index k (''Mol-'' @ format_03d (int k))"
proof -
  define ds where "ds = zfill 3 (str_nat k)"
  have f: "format_03d (int k) = ds" by (simp add: format_03d_def ds_def)
  have d1: "list_all is_digit ds" unfolding ds_def by (rule list_all_zfill) (rule str_nat_digits)
  have d2: "parse_nat ds = k" unfolding ds_def by (simp add: parse_nat_zfill parse_nat_str_nat)
  have d3: "3 \<le> length ds" unfolding ds_def by (simp add: length_zfill)
  have d4: "hd ds \<noteq> CHR ''0''" if "3 < length ds"
  proof -
    from that have e: "ds = str_nat k" unfolding ds_def by (rule zfill_unpadded)
    have "0 < k"
    proof (rule ccontr)
      assume "\<not> 0 < k"
      then have "length (str_nat k) = 1" by (simp add: str_nat_small)
      with that e show False by simp
    qed
    then show ?thesis unfolding e by (rule hd_str_nat)
  qed
  have d5: "ds = zero_pad_3 k" if "k < 1000"
    unfolding ds_def using that by (rule zfill_3_small)
  show ?thesis
    unfolding name_of_index_def f using d1 d2 d3 d4 d5 by (simp add: Let_def)
qed

section \<open>The loop of generate_demo\<close>

lemma fst_demo_rows_Cons:
  "fst (demo_rows R (i # js) g) =
     fst (demo_row R i g) # fst (demo_rows R js (snd (demo_row R i g)))"
  by (simp add: case_prod_beta)

lemma snd_demo_rows_Cons:
  "snd (demo_rows R (i # js) g) = snd (demo_rows R js (snd (demo_row R i g)))"
  by (simp add: case_prod_beta)

lemma demo_row_Molecule: "Molecule (fst (demo_row R i g)) = ''Mol-'' @ format_03d i"
  by (simp add: demo_row_def case_prod_beta Let_def)

lemma demo_rows_length: "length (fst (demo_rows R js g)) = length js"
  by (induction js arbitrary: g) (simp_all add: case_prod_beta)

lemma demo_rows_names:
  "map Molecule (fst (demo_rows R js g)) = map (\<lambda>i. ''Mol-'' @ format_03d i) js"
proof (induction js arbitrary: g)
  case Nil
  show ?case by simp
next
  case (Cons i js)
  show ?case
    unfolding fst_demo_rows_Cons using Cons [of "snd (demo_row R i g)"]
    by (simp add: demo_row_Molecule)
qed

lemma demo_rows_all:
  assumes "\<And>i g. P (fst (demo_row R i g))"
  shows "list_all P (fst (demo_rows R js g))"
proof (induction js arbitrary: g)
  case Nil
  show ?case by simp
next
  case (Cons i js)
  show ?case
    unfolding fst_demo_rows_Cons using assms [of i g] Cons [of "snd (demo_row R i g)"]
    by simp
qed

lemma names_distinct: "distinct (map (\<lambda>i. ''Mol-'' @ format_03d i) [1..n])"
proof -
  have "inj_on (\<lambda>i. ''Mol-'' @ format_03d i) (set [1..n])"
  proof (rule inj_onI)
    fix x y
    assume "x \<in> set [1..n]" "y \<in> set [1..n]"
      and eq: "''Mol-'' @ format_03d x = ''Mol-'' @ format_03d y"
    then have "0 \<le> x" "0 \<le> y" by simp_all
    moreover from eq have "format_03d x = format_03d y" by simp
    ultimately show "x = y" by (rule format_03d_inj)
  qed
  then show ?thesis by (simp add: distinct_map)
qed

lemma demo_row_Activity:
  "Activity (fst (demo_row R i g)) = py_round2 (fst (uniform R 0.30 0.95 g))"
  by (simp add: demo_row_def case_prod_beta Let_def)

lemma demo_row_Toxicity:
  "Toxicity (fst (demo_row R i g)) =
     py_round2 (fst (uniform R 0.10 0.80 (snd (uniform R 0.30 0.95 g))))"
  by (simp add: demo_row_def case_prod_beta Let_def)

lemma demo_row_Composite_score:
  "Composite_score (fst (demo_row R i g)) =
     composite_of (Activity (fst (demo_row R i g))) (Toxicity (fst (demo_row R i g)))"
  by (simp add: demo_row_def composite_of_def case_prod_beta Let_def)

lemma demo_row_Status:
  "Status (fst (demo_row R i g)) =
     (if binary64 (Activity (fst (demo_row R i g))) \<ge> binary64 0.7 \<and>
         binary64 (Toxicity (fst (demo_row R i g))) \<le> binary64 0.5
      then ''priority'' else ''reserve'')"
  by (simp add: demo_row_def case_prod_beta Let_def)

lemma snd_demo_row:
  "snd (demo_row R i g) = snd (uniform R 0.10 0.80 (snd (uniform R 0.30 0.95 g)))"
  by (simp add: demo_row_def case_prod_beta Let_def)

lemma demo_row_in_range:
  assumes "random_spec R"
  shows "row_in_range (fst (demo_row R i g))"
proof -
  define g1 where "g1 = snd (uniform R 0.30 0.95 g)"
  have "0.30 \<le> fst (uniform R 0.30 0.95 g) \<and> fst (uniform R 0.30 0.95 g) \<le> 0.95"
    by (rule uniform_range [OF assms]) simp
  then have ar: "of_int 30 / 100 \<le> fst (uniform R 0.30 0.95 g)"
    "fst (uniform R 0.30 0.95 g) \<le> of_int 95 / 100" by simp_all
  have "0.10 \<le> fst (uniform R 0.10 0.80 g1) \<and> fst (uniform R 0.10 0.80 g1) \<le> 0.80"
    by (rule uniform_range [OF assms]) simp
  then have tr: "of_int 10 / 100 \<le> fst (uniform R 0.10 0.80 g1)"
    "fst (uniform R 0.10 0.80 g1) \<le> of_int 80 / 100" by simp_all
  have "0.30 \<le> Activity (fst (demo_row R i g))"
    unfolding demo_row_Activity using py_round2_ge [OF ar(1)] by simp
  moreover have "Activity (fst (demo_row R i g)) \<le> 0.95"
    unfolding demo_row_Activity using py_round2_le [OF ar(2)] by simp
  moreover have "0.10 \<le> Toxicity (fst (demo_row R i g))"
    unfolding demo_row_Toxicity g1_def [symmetric] using py_round2_ge [OF tr(1)] by simp
  moreover have "Toxicity (fst (demo_row R i g)) \<le> 0.80"
    unfolding demo_row_Toxicity g1_def [symmetric] using py_round2_le [OF tr(2)] by simp
  moreover have "0.0 \<le> Composite_score (fst (demo_row R i g))"
    unfolding demo_row_Composite_score using composite_of_range by simp
  moreover have "Composite_score (fst (demo_row R i g)) \<le> 1.0"
    unfolding demo_row_Composite_score using composite_of_range by simp
  ultimately show ?thesis
    unfolding row_in_range_def by blast
qed

lemma demo_row_derived:
  assumes "random_spec R"
  shows "row_derived (fst (demo_row R i g))"
proof -
  define r where "r = fst (demo_row R i g)"
  have "row_in_range r" unfolding r_def by (rule demo_row_in_range [OF assms])
  then have rg: "0 \<le> Activity r" "Activity r \<le> 1" "0 \<le> Toxicity r" "Toxicity r \<le> 1"
    unfolding row_in_range_def by simp_all
  have ha: "\<exists>k. Activity r = of_int k / 100"
    unfolding r_def demo_row_Activity by (rule py_round2_hundredth)
  have ht: "\<exists>k. Toxicity r = of_int k / 100"
    unfolding r_def demo_row_Toxicity by (rule py_round2_hundredth)
  have cs: "Composite_score r = composite_of (Activity r) (Toxicity r)"
    unfolding r_def by (rule demo_row_Composite_score)
  have hs: "\<exists>k. Composite_score r = of_int k / 100"
    unfolding cs composite_of_def by (rule py_round2_hundredth)
  have near: "\<bar>Composite_score r - max 0 (min 1 (Activity r * (1 - Toxicity r) * 1.25))\<bar>
                \<le> 1 / 200 + 1 / 10 ^ 14"
    unfolding cs by (rule composite_of_near [OF rg])
  have st: "Status r =
      (if binary64 (Activity r) \<ge> binary64 0.7 \<and> binary64 (Toxicity r) \<le> binary64 0.5
       then ''priority'' else ''reserve'')"
    unfolding r_def by (rule demo_row_Status)
  have "\<exists>j. (0.7::real) = of_int j / 100" by (rule exI [of _ 70]) simp
  then have ge: "(binary64 0.7 \<le> binary64 (Activity r)) = (0.7 \<le> Activity r)"
    using ha rg by (intro binary64_le_iff) simp_all
  have "\<exists>j. (0.5::real) = of_int j / 100" by (rule exI [of _ 50]) simp
  with ht have le: "(binary64 (Toxicity r) \<le> binary64 0.5) = (Toxicity r \<le> 0.5)"
    using rg by (intro binary64_le_iff) simp_all
  have "(Status r = ''priority'') =
          (binary64 0.7 \<le> binary64 (Activity r) \<and> binary64 (Toxicity r) \<le> binary64 0.5)"
    by (subst st) simp
  then have s1: "(Status r = ''priority'') = (Activity r \<ge> 0.70 \<and> Toxicity r \<le> 0.50)"
    using ge le by simp
  have s2: "(Status r \<noteq> ''priority'') = (Status r = ''reserve'')"
    by (subst (1 2) st) simp
  show ?thesis
    unfolding row_derived_def r_def [symmetric] using cs hs near s1 s2 by (intro conjI)
qed

lemma snd_generate_demo:
  "snd (generate_demo sort_values R n seed g) = snd (demo_rows R [1..n] (random_seed R seed))"
  by (simp add: generate_demo_def case_prod_beta)

lemma generate_demo_Inr:
  assumes "1 \<le> n"
  shows "fst (generate_demo sort_values R n seed g) =
           Inr (sort_values (fst (demo_rows R [1..n] (random_seed R seed))))"
proof -
  have "length (fst (demo_rows R [1..n] (random_seed R seed))) = nat n"
    by (simp add: demo_rows_length)
  with assms have "fst (demo_rows R [1..n] (random_seed R seed)) \<noteq> []" by auto
  then show ?thesis by (simp add: generate_demo_def case_prod_beta)
qed

lemma generate_demo_Inl:
  assumes "n \<le> 0"
  shows "fst (generate_demo sort_values R n seed g) = Inl (KeyError ''Composite score'')"
  using assms by (simp add: generate_demo_def)

lemma sort_values_list_all:
  assumes "sort_values_spec sort_values" "list_all P rows"
  shows "list_all P (sort_values rows)"
proof -
  from assms(1) have "mset (sort_values rows) = mset rows" by (simp add: sort_values_spec_def)
  then have "set (sort_values rows) = set rows" by (rule mset_eq_setD)
  with assms(2) show ?thesis by (simp add: list_all_iff)
qed

section \<open>Properties of generate_demo\<close>

text \<open>
  C1. Two calls of \<^verbatim>\<open>generate_demo\<close> with the same count and seed return the same frame,
  row for row, whatever state the module-level generator was in before each call.
\<close>

theorem generate_demo_deterministic:
  "fst (generate_demo sort_values R n seed g1) = fst (generate_demo sort_values R n seed g2)"
  by (simp add: generate_demo_def)

text \<open>
  C3. For every count of at least one and every seed, the call returns a frame, and every
  row of it has its activity in \<open>[0.30, 0.95]\<close>, its toxicity in \<open>[0.10, 0.80]\<close> and its
  composite score in \<open>[0, 1]\<close>, all after rounding to two decimals.
\<close>
theorem generate_demo_ranges:
  assumes "random_spec R" "sort_values_spec sort_values" "1 \<le> n"
  shows "\<exists>out. fst (generate_demo sort_values R n seed g) = Inr out \<and> list_all row_in_range out"
proof -
  have "list_all row_in_range (fst (demo_rows R [1..n] (random_seed R seed)))"
    by (rule demo_rows_all) (rule demo_row_in_range [OF assms(1)])
  then have "list_all row_in_range (sort_values (fst (demo_rows R [1..n] (random_seed R seed))))"
    by (rule sort_values_list_all [OF assms(2)])
  with generate_demo_Inr [OF assms(3), of sort_values R seed g] show ?thesis
    by (intro exI conjI)
qed

text \<open>
  C4. For every row of the returned frame the composite score is
  \<open>round(max(0, min(1, activity * (1 - toxicity) * 1.25)), 2)\<close> as Python evaluates it on
  the row's activity and toxicity (the product in binary64); it is a hundredth within half
  a hundredth, and the rounding error of the product, of that expression over the real
  numbers; and the status is \<open>priority\<close> exactly when the activity is at least 0.70 and the
  toxicity at most 0.50, and \<open>reserve\<close> otherwise.
\<close>
theorem generate_demo_derived_fields:
  assumes "random_spec R" "sort_values_spec sort_values" "1 \<le> n"
  shows "\<exists>out. fst (generate_demo sort_values R n seed g) = Inr out \<and> list_all row_derived out"
proof -
  have "list_all row_derived (fst (demo_rows R [1..n] (random_seed R seed)))"
    by (rule demo_rows_all) (rule demo_row_derived [OF assms(1)])
  then have "list_all row_derived (sort_values (fst (demo_rows R [1..n] (random_seed R seed))))"
    by (rule sort_values_list_all [OF assms(2)])
  with generate_demo_Inr [OF assms(3), of sort_values R seed g] show ?thesis
    by (intro exI conjI)
qed

text \<open>
  C6. For every count of at least one and every seed, the returned frame has exactly
  count rows; the row generated at position \<open>i\<close> (counted from one, before the sort) is
  named \<open>Mol-\<close> followed by \<open>i\<close> zero-padded to 3 digits; and the names of the frame are
  pairwise distinct.
\<close>
theorem generate_demo_shape_and_names:
  assumes "sort_values_spec sort_values" "1 \<le> n"
  shows "\<exists>out. fst (generate_demo sort_values R n seed g) = Inr out \<and>
           length out = nat n \<and> distinct (map Molecule out) \<and>
           mset out = mset (fst (demo_rows R [1..n] (random_seed R seed))) \<and>
           length (fst (demo_rows R [1..n] (random_seed R seed))) = nat n \<and>
           (\<forall>i < nat n. name_of_index (i + 1)
                           (Molecule (fst (demo_rows R [1..n] (random_seed R seed)) ! i)))"
proof -
  define rows where "rows = fst (demo_rows R [1..n] (random_seed R seed))"
  have len: "length rows = nat n" by (simp add: rows_def demo_rows_length)
  have names: "map Molecule rows = map (\<lambda>i. ''Mol-'' @ format_03d i) [1..n]"
    unfolding rows_def by (rule demo_rows_names)
  have ms: "mset (sort_values rows) = mset rows"
    using assms(1) by (simp add: sort_values_spec_def)
  then have "length (sort_values rows) = length rows" by (rule mset_eq_length)
  with len have l2: "length (sort_values rows) = nat n" by simp
  have d0: "distinct (map Molecule rows)"
    unfolding names by (rule names_distinct)
  have "mset (map Molecule (sort_values rows)) = mset (map Molecule rows)"
    using ms by simp
  then have "distinct (map Molecule (sort_values rows)) = distinct (map Molecule rows)"
    by (rule mset_eq_imp_distinct_iff)
  with d0 have d: "distinct (map Molecule (sort_values rows))" by simp
  have nm: "\<forall>i < nat n. name_of_index (i + 1) (Molecule (rows ! i))"
  proof (intro allI impI)
    fix i assume i: "i < nat n"
    then have "Molecule (rows ! i) = map Molecule rows ! i" by (simp add: len)
    also have "\<dots> = ''Mol-'' @ format_03d ([1..n] ! i)"
      unfolding names using i by simp
    also have "[1..n] ! i = int (i + 1)" using i by (simp add: nth_upto)
    finally have "Molecule (rows ! i) = ''Mol-'' @ format_03d (int (i + 1))" .
    then show "name_of_index (i + 1) (Molecule (rows ! i))"
      by (simp only: name_of_index_format)
  qed
  have "fst (generate_demo sort_values R n seed g) = Inr (sort_values rows)"
    unfolding rows_def by (rule generate_demo_Inr [OF assms(2)])
  with l2 d ms len nm show ?thesis
    unfolding rows_def [symmetric] by (intro exI [of _ "sort_values rows"]) simp
qed

subsection \<open>The instances meet the library contracts\<close>

lemma lcg_random_spec: "random_spec lcg"
proof -
  have "0 \<le> real_of_int (g mod 1000) / 1000 \<and> real_of_int (g mod 1000) / 1000 < 1" for g :: int
  proof -
    have "0 \<le> g mod 1000" "g mod 1000 < 1000" by simp_all
    then have "0 \<le> real_of_int (g mod 1000)" "real_of_int (g mod 1000) < 1000"
      by linarith+
    then show ?thesis by simp
  qed
  moreover have "a \<le> a + g mod (b - a + 1) \<and> a + g mod (b - a + 1) \<le> b"
    if "a \<le> b" for a b g :: int
  proof -
    from that have "0 < b - a + 1" by simp
    then have "0 \<le> g mod (b - a + 1)" "g mod (b - a + 1) < b - a + 1"
      by (rule pos_mod_sign, rule pos_mod_bound)
    then show ?thesis by linarith
  qed
  ultimately show ?thesis by (simp add: random_spec_def lcg_def)
qed

lemma mset_insert_desc: "mset (insert_desc x ys) = add_mset x (mset ys)"
  by (induction ys) simp_all

lemma set_insert_desc: "set (insert_desc x ys) = insert x (set ys)"
  by (induction ys) auto

lemma sorted_insert_desc:
  "sorted_wrt (\<lambda>a b. Composite_score b \<le> Composite_score a) ys \<Longrightarrow>
   sorted_wrt (\<lambda>a b. Composite_score b \<le> Composite_score a) (insert_desc x ys)"
proof (induction ys)
  case Nil
  show ?case by simp
next
  case (Cons y ys)
  show ?case
  proof (cases "Composite_score y \<le> Composite_score x")
    case True
    with Cons.prems show ?thesis by auto
  next
    case False
    with Cons show ?thesis by (auto simp: set_insert_desc)
  qed
qed

lemma foldl_insert_desc:
  "mset (foldl (\<lambda>acc x. insert_desc x acc) acc rows) = mset acc + mset rows"
  by (induction rows arbitrary: acc) (simp_all add: mset_insert_desc)

lemma foldl_insert_desc_sorted:
  "sorted_wrt (\<lambda>a b. Composite_score b \<le> Composite_score a) acc \<Longrightarrow>
   sorted_wrt (\<lambda>a b. Composite_score b \<le> Composite_score a)
     (foldl (\<lambda>acc x. insert_desc x acc) acc rows)"
  by (induction rows arbitrary: acc) (simp_all add: sorted_insert_desc)

lemma sort_desc_unstable_spec: "sort_values_spec sort_desc_unstable"
  unfolding sort_values_spec_def sort_desc_unstable_def
  using foldl_insert_desc [of "[]"] foldl_insert_desc_sorted [of "[]"] by simp

theorem generate_demo_ranges_witness:
  "random_spec lcg \<and> sort_values_spec sort_desc_unstable \<and> (1::int) \<le> 10 \<and>
   (\<exists>out. fst (generate_demo sort_desc_unstable lcg 10 42 0) = Inr out \<and>
          list_all row_in_range out)"
proof (intro conjI)
  show "random_spec lcg" by (rule lcg_random_spec)
  show "sort_values_spec sort_desc_unstable" by (rule sort_desc_unstable_spec)
  show "(1::int) \<le> 10" by simp
  show "\<exists>out. fst (generate_demo sort_desc_unstable lcg 10 42 0) = Inr out \<and>
          list_all row_in_range out"
    by (rule generate_demo_ranges [OF lcg_random_spec sort_desc_unstable_spec]) simp
qed

section \<open>generate_demo at concrete inputs\<close>

lemma upto_1_2: "[1..2] = [1, 2 :: int]"
  by (simp add: upto.simps)

lemma lcg_seed_26: "random_seed lcg 26 = 26"
  by (simp add: lcg_def)

lemma lcg_u1: "uniform lcg (3 / 10) (19 / 20) 26 = (3169 / 10000, 774121291)"
  by (simp add: uniform_def lcg_def lcg_next_def)

lemma lcg_u2: "uniform lcg (1 / 10) (4 / 5) 774121291 = (3037 / 10000, 408929576)"
  by (simp add: uniform_def lcg_def lcg_next_def)

lemma lcg_u3: "uniform lcg (3 / 10) (19 / 20) 408929576 = (843 / 1250, 868831809)"
  by (simp add: uniform_def lcg_def lcg_next_def)

lemma lcg_u4: "uniform lcg (1 / 10) (4 / 5) 868831809 = (6663 / 10000, 51250150)"
  by (simp add: uniform_def lcg_def lcg_next_def)

lemma state_1: "snd (demo_row lcg 1 26) = 408929576"
  by (simp add: snd_demo_row lcg_u1 lcg_u2)

lemma state_2: "snd (demo_row lcg 2 408929576) = 51250150"
  by (simp add: snd_demo_row lcg_u3 lcg_u4)

text \<open>
  C7 says that a call changes no state outside itself. The function calls
  \<^verbatim>\<open>random.seed\<close> and \<^verbatim>\<open>random.uniform\<close> of the module, not of a generator of its own as
  \<^verbatim>\<open>molecule_svg\<close> does: a module-level generator in state 0 before the call
  \<open>generate_demo(2, 26)\<close> is in the state reached from seed 26 by four draws after it.
\<close>

theorem generate_demo_reseeds_module_generator:
  "snd (generate_demo sort_desc_unstable lcg 2 26 0) = 51250150"
  by (simp only: snd_generate_demo upto_1_2 lcg_seed_26 snd_demo_rows_Cons state_1 state_2
      demo_rows.simps(1) snd_conv)

lemma upto_1_10: "[1..10] = [1, 2, 3, 4, 5, 6, 7, 8, 9, 10 :: int]"
  by (simp add: upto.simps)

lemma names_10:
  "map (\<lambda>i. ''Mol-'' @ format_03d i) [1, 2, 3, 4, 5, 6, 7, 8, 9, 10] =
     [''Mol-001'', ''Mol-002'', ''Mol-003'', ''Mol-004'', ''Mol-005'', ''Mol-006'', ''Mol-007'',
      ''Mol-008'', ''Mol-009'', ''Mol-010'']"
  by (simp add: format_03d_def zfill_def str_nat.simps numeral_2_eq_2)

lemma digit_char_7: "digit_char 7 = CHR ''7''"
  using digit_char_nth [of 7] by simp

theorem generate_demo_shape_and_names_witness:
  "sort_values_spec sort_desc_unstable \<and> (1::int) \<le> 10 \<and>
   (\<exists>out. fst (generate_demo sort_desc_unstable lcg 10 42 0) = Inr out \<and>
           length out = nat 10 \<and> distinct (map Molecule out) \<and>
           mset out = mset (fst (demo_rows lcg [1..10] (random_seed lcg 42))) \<and>
           length (fst (demo_rows lcg [1..10] (random_seed lcg 42))) = nat 10 \<and>
           (\<forall>i < nat 10. name_of_index (i + 1)
                            (Molecule (fst (demo_rows lcg [1..10] (random_seed lcg 42)) ! i)))) \<and>
   map Molecule (fst (demo_rows lcg [1..10] (random_seed lcg 42))) =
     [''Mol-001'', ''Mol-002'', ''Mol-003'', ''Mol-004'', ''Mol-005'', ''Mol-006'', ''Mol-007'',
      ''Mol-008'', ''Mol-009'', ''Mol-010''] \<and>
   name_of_index 7 ''Mol-007'' \<and> \<not> name_of_index 7 ''Mol-7'' \<and> \<not> name_of_index 7 ''Mol-0007''"
proof (intro conjI)
  show "sort_values_spec sort_desc_unstable" by (rule sort_desc_unstable_spec)
  show "(1::int) \<le> 10" by simp
  show "\<exists>out. fst (generate_demo sort_desc_unstable lcg 10 42 0) = Inr out \<and>
           length out = nat 10 \<and> distinct (map Molecule out) \<and>
           mset out = mset (fst (demo_rows lcg [1..10] (random_seed lcg 42))) \<and>
           length (fst (demo_rows lcg [1..10] (random_seed lcg 42))) = nat 10 \<and>
           (\<forall>i < nat 10. name_of_index (i + 1)
                            (Molecule (fst (demo_rows lcg [1..10] (random_seed lcg 42)) ! i)))"
    by (rule generate_demo_shape_and_names [OF sort_desc_unstable_spec]) simp
  show "map Molecule (fst (demo_rows lcg [1..10] (random_seed lcg 42))) =
     [''Mol-001'', ''Mol-002'', ''Mol-003'', ''Mol-004'', ''Mol-005'', ''Mol-006'', ''Mol-007'',
      ''Mol-008'', ''Mol-009'', ''Mol-010'']"
    unfolding demo_rows_names upto_1_10 by (rule names_10)
  show "name_of_index 7 ''Mol-007''"
    by (simp add: name_of_index_def parse_nat_def digit_val_def is_digit_def zero_pad_3_def
        digit_char_7 digit_char_0)
  show "\<not> name_of_index 7 ''Mol-7''"
    by (simp add: name_of_index_def)
  show "\<not> name_of_index 7 ''Mol-0007''"
    by (simp add: name_of_index_def)
qed

subsection \<open>A score at a tie\<close>

text \<open>
  Activity 0.72 and toxicity 0.15: over the real numbers the product is 0.765, halfway
  between two hundredths. The floats of 0.72 and 0.15, the difference and the two products
  are evaluated below, each in units of \<open>2^-53\<close> or \<open>2^-55\<close>; the binary64 product lies
  above 0.765 and the score is 0.77.
\<close>

lemma float_072: "binary64 (18 / 25) = 3242591731706757 / 4503599627370496"
proof -
  have "round_half_even (18 / 25 * 2 ^ (52 + 1)) = 6485183463413514" by code_simp
  moreover have "binary64 (18 / 25) =
      of_int (round_half_even (18 / 25 * 2 ^ (52 + 1))) / 2 ^ (52 + 1)"
    by (rule binary64_eval) simp_all
  ultimately show ?thesis by simp
qed

lemma float_015: "binary64 (3 / 20) = 5404319552844595 / 36028797018963968"
proof -
  have "round_half_even (3 / 20 * 2 ^ (52 + 3)) = 5404319552844595" by code_simp
  moreover have "binary64 (3 / 20) =
      of_int (round_half_even (3 / 20 * 2 ^ (52 + 3))) / 2 ^ (52 + 3)"
    by (rule binary64_eval) simp_all
  ultimately show ?thesis by simp
qed

lemma float_sub_015:
  "float_sub 1 (5404319552844595 / 36028797018963968) = 7656119366529843 / 9007199254740992"
proof -
  have "round_half_even ((1 - 5404319552844595 / 36028797018963968) * 2 ^ (52 + 1)) =
          7656119366529843" by code_simp
  moreover have "binary64 (1 - 5404319552844595 / 36028797018963968) =
      of_int (round_half_even ((1 - 5404319552844595 / 36028797018963968) * 2 ^ (52 + 1))) /
        2 ^ (52 + 1)"
    by (rule binary64_eval) simp_all
  ultimately show ?thesis unfolding float_sub_def by simp
qed

lemma float_mul_072:
  "float_mul (3242591731706757 / 4503599627370496) (7656119366529843 / 9007199254740992) =
     5512405943901487 / 9007199254740992"
proof -
  have "round_half_even (3242591731706757 / 4503599627370496 *
          (7656119366529843 / 9007199254740992) * 2 ^ (52 + 1)) = 5512405943901487"
    by code_simp
  moreover have "binary64 (3242591731706757 / 4503599627370496 *
          (7656119366529843 / 9007199254740992)) =
      of_int (round_half_even (3242591731706757 / 4503599627370496 *
          (7656119366529843 / 9007199254740992) * 2 ^ (52 + 1))) / 2 ^ (52 + 1)"
    by (rule binary64_eval) simp_all
  ultimately show ?thesis unfolding float_mul_def by simp
qed

lemma float_mul_125:
  "float_mul (5512405943901487 / 9007199254740992) (5 / 4) =
     6890507429876859 / 9007199254740992"
proof -
  have "round_half_even (5512405943901487 / 9007199254740992 * (5 / 4) * 2 ^ (52 + 1)) =
          6890507429876859"
    by code_simp
  moreover have "binary64 (5512405943901487 / 9007199254740992 * (5 / 4)) =
      of_int (round_half_even (5512405943901487 / 9007199254740992 * (5 / 4) * 2 ^ (52 + 1))) /
        2 ^ (52 + 1)"
    by (rule binary64_eval) simp_all
  ultimately show ?thesis unfolding float_mul_def by simp
qed

lemma round_0765: "py_round2 (6890507429876859 / 9007199254740992) = 77 / 100"
  by code_simp

lemma composite_of_tie: "composite_of 0.72 0.15 = 0.77"
  by (simp add: composite_of_def float_072 float_015 float_sub_015 float_mul_072 float_mul_125
      round_0765)

lemma exact_product_tie: "py_round2 (max 0 (min 1 (0.72 * (1 - 0.15) * 1.25))) = 0.76"
  by code_simp

theorem generate_demo_derived_fields_witness:
  "random_spec lcg \<and> sort_values_spec sort_desc_unstable \<and> (1::int) \<le> 3 \<and>
   (\<exists>out. fst (generate_demo sort_desc_unstable lcg 3 7 0) = Inr out \<and>
          list_all row_derived out) \<and>
   composite_of 0.72 0.15 = 0.77"
proof (intro conjI)
  show "random_spec lcg" by (rule lcg_random_spec)
  show "sort_values_spec sort_desc_unstable" by (rule sort_desc_unstable_spec)
  show "(1::int) \<le> 3" by simp
  show "\<exists>out. fst (generate_demo sort_desc_unstable lcg 3 7 0) = Inr out \<and>
          list_all row_derived out"
    by (rule generate_demo_derived_fields [OF lcg_random_spec sort_desc_unstable_spec]) simp
  show "composite_of 0.72 0.15 = 0.77" by (rule composite_of_tie)
qed

section \<open>What molecule_svg returns\<close>

lemma map_err_Inr:
  assumes "\<And>x. x \<in> set xs \<Longrightarrow> f x = Inr (g x)"
  shows "map_err f xs = Inr (map g xs)"
  using assms by (induction xs) (simp_all add: bind_err_def)

lemma py_index_nth:
  "0 \<le> i \<Longrightarrow> i < int (length xs) \<Longrightarrow> py_index xs i = Inr (xs ! nat i)"
  by (simp add: py_index_def)

lemma or_1_nonzero: "or_1 L \<noteq> 0"
  by (simp add: or_1_def)

lemma float_div_or_1: "float_div a (or_1 L) = Inr (a / or_1 L)"
  by (simp add: float_div_def or_1_nonzero)

lemma length_hexagon: "length (hexagon cx cy r rot) = 6"
  by (simp add: hexagon_def)

lemma upto_0_5: "[0..5] = [0, 1, 2, 3, 4, 5 :: int]"
  by (simp add: upto.simps)

lemma edge_line_Inr:
  assumes "length pts = 6" "0 \<le> i" "i \<le> 5"
  shows "edge_line pts i = Inr (edge_of pts i)"
proof -
  have a: "py_index pts i = Inr (pts ! nat i)"
    using assms by (intro py_index_nth) simp_all
  have "0 \<le> (i + 1) mod 6" "(i + 1) mod 6 < 6" by simp_all
  then have b: "py_index pts ((i + 1) mod 6) = Inr (pts ! nat ((i + 1) mod 6))"
    using assms(1) by (intro py_index_nth) simp_all
  show ?thesis
    by (simp add: edge_line_def a b bind_err_def edge_of_def case_prod_beta)
qed

lemma dbl_line_Inr:
  assumes "length pts = 6" "0 \<le> i" "i \<le> 5"
  shows "dbl_line pts i = Inr (dbl_of pts i)"
proof -
  have a: "py_index pts i = Inr (pts ! nat i)"
    using assms by (intro py_index_nth) simp_all
  have "0 \<le> (i + 1) mod 6" "(i + 1) mod 6 < 6" by simp_all
  then have b: "py_index pts ((i + 1) mod 6) = Inr (pts ! nat ((i + 1) mod 6))"
    using assms(1) by (intro py_index_nth) simp_all
  show ?thesis
    unfolding dbl_line_def dbl_of_def a b bind_err_def Let_def float_div_or_1
    by (simp only: sum.case case_prod_beta)
qed

lemma edges_Inr:
  assumes "length pts = 6"
  shows "map_err (edge_line pts) [0..5] = Inr (map (edge_of pts) [0..5])"
proof (rule map_err_Inr)
  fix x :: int assume "x \<in> set [0..5]"
  then have "0 \<le> x" "x \<le> 5" by simp_all
  then show "edge_line pts x = Inr (edge_of pts x)" by (rule edge_line_Inr [OF assms])
qed

lemma dbl_Inr:
  assumes "length pts = 6"
  shows "map_err (dbl_line pts) [0, 2, 4] = Inr (map (dbl_of pts) [0, 2, 4])"
proof (rule map_err_Inr)
  fix x :: int assume "x \<in> set [0, 2, 4]"
  then have "0 \<le> x" "x \<le> 5" by auto
  then show "dbl_line pts x = Inr (dbl_of pts x)" by (rule dbl_line_Inr [OF assms])
qed

lemma subs_loop_Inr:
  assumes "random_spec R" "length pts = 6"
  shows "\<exists>js. subs_loop R pts cx cy sz k g = Inr (flatten_pairs (map (sub_of pts cx cy sz) js)) \<and>
              length js = k \<and> list_all (\<lambda>j. j < 6) js"
proof (induction k arbitrary: g)
  case 0
  have "subs_loop R pts cx cy sz 0 g = Inr (flatten_pairs (map (sub_of pts cx cy sz) []))"
    by (simp add: flatten_pairs_def)
  then show ?case by (intro exI [of _ "[]"]) simp
next
  case (Suc k)
  define i where "i = fst (random_randint R 0 5 g)"
  define g' where "g' = snd (random_randint R 0 5 g)"
  have ig: "random_randint R 0 5 g = (i, g')" by (simp add: i_def g'_def)
  have "0 \<le> fst (random_randint R 0 5 g) \<and> fst (random_randint R 0 5 g) \<le> 5"
    using assms(1) unfolding random_spec_def by simp
  then have i: "0 \<le> i" "i \<le> 5" by (simp_all add: i_def)
  then have idx: "py_index pts i = Inr (pts ! nat i)"
    using assms(2) by (intro py_index_nth) simp_all
  from Suc [of g'] obtain js where js:
    "subs_loop R pts cx cy sz k g' = Inr (flatten_pairs (map (sub_of pts cx cy sz) js))"
    "length js = k" "list_all (\<lambda>j. j < 6) js" by blast
  have "subs_loop R pts cx cy sz (Suc k) g =
          Inr (flatten_pairs (map (sub_of pts cx cy sz) (nat i # js)))"
    by (simp add: ig idx js(1) bind_err_def case_prod_beta Let_def float_div_or_1
        flatten_pairs_def sub_of_def)
  moreover have "length (nat i # js) = Suc k" using js(2) by simp
  moreover have "list_all (\<lambda>j. j < 6) (nat i # js)" using js(3) i by simp
  ultimately show ?case by blast
qed

lemma float_range_half: "float_range x \<Longrightarrow> float_range (x / 2)"
proof -
  assume "float_range x"
  moreover have "\<bar>x / 2\<bar> \<le> \<bar>x\<bar>" by simp
  ultimately show ?thesis unfolding float_range_def by (rule le_less_trans [rotated])
qed

lemma int_truediv_2:
  "float_range (real_of_int s) \<Longrightarrow> int_truediv s 2 = Inr (real_of_int s / 2)"
  using float_range_half [of "real_of_int s"] by (simp add: int_truediv_def)

lemma molecule_svg_Inr:
  assumes "random_spec R" "float_range (real_of_int s)"
  shows "\<exists>js. molecule_svg hash R name s =
           Inr \<lparr>svg_size = s,
                svg_bg = Circle (real_of_int s / 2) (real_of_int s / 2) (real_of_int s * 0.44)
                           (A_TEAL @ ''11''),
                svg_edges = map (edge_of (icon_points hash R name s)) [0..5],
                svg_dbl = map (dbl_of (icon_points hash R name s)) [0, 2, 4],
                svg_subs = flatten_pairs (map (sub_of (icon_points hash R name s)
                             (real_of_int s / 2) (real_of_int s / 2) (real_of_int s)) js)\<rparr> \<and>
           length js = nat (n_sub hash R name) \<and> list_all (\<lambda>j. j < 6) js"
proof -
  define pts where "pts = icon_points hash R name s"
  have len: "length pts = 6" by (simp add: pts_def icon_points_def length_hexagon)
  define g where "g = snd (uniform R 0 (pi / 3) (random_seed R (hash name mod 10 ^ 7)))"
  from subs_loop_Inr [OF assms(1) len, of "real_of_int s / 2" "real_of_int s / 2" "real_of_int s"
      "nat (n_sub hash R name)" g]
  obtain js where js:
    "subs_loop R pts (real_of_int s / 2) (real_of_int s / 2) (real_of_int s)
       (nat (n_sub hash R name)) g =
     Inr (flatten_pairs (map (sub_of pts (real_of_int s / 2) (real_of_int s / 2) (real_of_int s)) js))"
    "length js = nat (n_sub hash R name)" "list_all (\<lambda>j. j < 6) js" by blast
  have "molecule_svg hash R name s =
           Inr \<lparr>svg_size = s,
                svg_bg = Circle (real_of_int s / 2) (real_of_int s / 2) (real_of_int s * 0.44)
                           (A_TEAL @ ''11''),
                svg_edges = map (edge_of pts) [0..5],
                svg_dbl = map (dbl_of pts) [0, 2, 4],
                svg_subs = flatten_pairs (map (sub_of pts
                             (real_of_int s / 2) (real_of_int s / 2) (real_of_int s)) js)\<rparr>"
    unfolding molecule_svg_def Let_def int_truediv_2 [OF assms(2)] bind_err_def sum.case
      float_of_int_def if_P [OF assms(2)] case_prod_beta
      icon_points_def [symmetric] pts_def [symmetric] g_def [symmetric] n_sub_def [symmetric]
      edges_Inr [OF len] dbl_Inr [OF len] js(1)
    by (rule refl)
  with js(2,3) show ?thesis unfolding pts_def by blast
qed

lemma molecule_svg_Inl:
  assumes "\<not> float_range (real_of_int s)"
  shows "molecule_svg hash R name s = Inl OverflowError"
proof (cases "float_range (real_of_int s / real_of_int 2)")
  case True
  then show ?thesis
    using assms by (simp add: molecule_svg_def int_truediv_def bind_err_def float_of_int_def)
next
  case False
  then show ?thesis
    by (simp add: molecule_svg_def int_truediv_def bind_err_def)
qed

subsection \<open>Geometry of a substituent\<close>

lemma hypot_scaled:
  assumes "c\<^sup>2 + s\<^sup>2 = 1"
  shows "hypot (a * c) (a * s) = \<bar>a\<bar>"
proof -
  have "(a * c)\<^sup>2 + (a * s)\<^sup>2 = a\<^sup>2 * (c\<^sup>2 + s\<^sup>2)"
    by (simp add: power_mult_distrib distrib_left)
  also have "\<dots> = a\<^sup>2" using assms by simp
  finally show ?thesis by (simp add: hypot_def)
qed

lemma sub_geometry:
  fixes c s r len cx cy :: real
  assumes cs: "c\<^sup>2 + s\<^sup>2 = 1" and r: "0 < r" and len: "0 \<le> len"
  defines "x1 \<equiv> cx + r * c" and "y1 \<equiv> cy + r * s"
  defines "L \<equiv> or_1 (hypot (x1 - cx) (y1 - cy))"
  defines "x3 \<equiv> x1 + (x1 - cx) / L * len" and "y3 \<equiv> y1 + (y1 - cy) / L * len"
  shows "hypot (x3 - x1) (y3 - y1) = len"
    and "hypot (x3 - cx) (y3 - cy) = hypot (x1 - cx) (y1 - cy) + len"
proof -
  have h1: "hypot (x1 - cx) (y1 - cy) = r"
    using hypot_scaled [OF cs, of r] r by (simp add: x1_def y1_def)
  then have L: "L = r" using r by (simp add: L_def or_1_def)
  have d3: "x3 - x1 = len * c" "y3 - y1 = len * s"
    using r by (simp_all add: x3_def y3_def x1_def y1_def L)
  show "hypot (x3 - x1) (y3 - y1) = len"
    unfolding d3 using hypot_scaled [OF cs, of len] len by simp
  have c3: "x3 - cx = (r + len) * c" "y3 - cy = (r + len) * s"
    using r by (simp_all add: x3_def y3_def x1_def y1_def L algebra_simps)
  show "hypot (x3 - cx) (y3 - cy) = hypot (x1 - cx) (y1 - cy) + len"
    unfolding c3 h1 using hypot_scaled [OF cs, of "r + len"] r len by simp
qed

lemma hexagon_nth:
  assumes "j < 6"
  shows "hexagon cx cy r rot ! j =
           (cx + r * cos (rot + real j * (pi / 3)), cy + r * sin (rot + real j * (pi / 3)))"
proof -
  have "[0..5] ! j = 0 + int j" using assms by (intro nth_upto) simp
  then show ?thesis using assms by (simp add: hexagon_def)
qed

lemma line_from_edge_of: "line_from (edge_of pts i) = pts ! nat i"
  by (simp add: edge_of_def)

lemma vertex_of_edges:
  assumes "j < 6"
  shows "pts ! j \<in> set (map line_from (map (edge_of pts) [0..5]))"
proof -
  have "int j \<in> set [0..5]" using assms by simp
  then have "(\<lambda>i. pts ! nat i) (int j) \<in> (\<lambda>i. pts ! nat i) ` set [0..5]"
    by (rule imageI)
  then have "pts ! j \<in> (\<lambda>i. pts ! nat i) ` set [0..5]" by simp
  moreover have "map line_from (map (edge_of pts) [0..5]) = map (\<lambda>i. pts ! nat i) [0..5]"
    by (simp only: map_map comp_def line_from_edge_of)
  ultimately show ?thesis by (simp only: set_map)
qed

lemma substituent_sub_of:
  assumes "0 < r" "0 \<le> len" "j < 6"
  shows "substituent (map line_from (map (edge_of (hexagon cx cy r rot)) [0..5])) cx cy len
           (sub_of (hexagon cx cy r rot) cx cy (len / 0.24) j)"
proof -
  define t where "t = rot + real j * (pi / 3)"
  define x1 where "x1 = cx + r * cos t"
  define y1 where "y1 = cy + r * sin t"
  define L where "L = or_1 (hypot (x1 - cx) (y1 - cy))"
  define x3 where "x3 = x1 + (x1 - cx) / L * len"
  define y3 where "y3 = y1 + (y1 - cy) / L * len"
  have p: "hexagon cx cy r rot ! j = (x1, y1)"
    by (simp add: hexagon_nth [OF assms(3)] x1_def y1_def t_def)
  have cs: "(cos t)\<^sup>2 + (sin t)\<^sup>2 = 1" by simp
  have g1: "hypot (x3 - x1) (y3 - y1) = len"
    unfolding x3_def y3_def L_def x1_def y1_def by (rule sub_geometry(1) [OF cs assms(1,2)])
  have g2: "hypot (x3 - cx) (y3 - cy) = hypot (x1 - cx) (y1 - cy) + len"
    unfolding x3_def y3_def L_def x1_def y1_def by (rule sub_geometry(2) [OF cs assms(1,2)])
  have s: "sub_of (hexagon cx cy r rot) cx cy (len / 0.24) j =
             (Line x1 y1 x3 y3 1.5 ''#243045'' ''round'', Circle x3 y3 1.8 ''#0F172A'')"
    by (simp add: sub_of_def p Let_def x3_def y3_def L_def)
  have v: "(x1, y1) \<in> set (map line_from (map (edge_of (hexagon cx cy r rot)) [0..5]))"
    using vertex_of_edges [OF assms(3), of "hexagon cx cy r rot"] by (simp only: p)
  show ?thesis
    unfolding substituent_def s fst_conv snd_conv using g1 g2 v by blast
qed

subsection \<open>The structure of the returned icon\<close>

lemma upt_0_6: "[0..<6] = [0, 1, 2, 3, 4, 5]"
  by code_simp

lemma upt_0_3: "[0..<3] = [0, 1, 2]"
  by code_simp

lemma outer_edge_edge_of: "outer_edge (edge_of pts i)"
  by (simp add: outer_edge_def edge_of_def)

lemma line_to_edge_of: "line_to (edge_of pts i) = pts ! nat ((i + 1) mod 6)"
  by (simp add: edge_of_def)

lemma edges_closed:
  "list_all (\<lambda>i. line_to (map (edge_of pts) [0..5] ! i) =
                  line_from (map (edge_of pts) [0..5] ! ((i + 1) mod 6))) [0..<6]"
  by (simp add: upto_0_5 upt_0_6 line_to_edge_of line_from_edge_of)

lemma chord_length:
  fixes r a :: real
  shows "hypot (r * cos (a + pi / 3) - r * cos a) (r * sin (a + pi / 3) - r * sin a) = \<bar>r\<bar>"
proof -
  define c1 where "c1 = cos (a + pi / 3)"
  define s1 where "s1 = sin (a + pi / 3)"
  define c where "c = cos a"
  define s where "s = sin a"
  have u1: "c1\<^sup>2 + s1\<^sup>2 = 1" and u: "c\<^sup>2 + s\<^sup>2 = 1"
    by (simp_all add: c1_def s1_def c_def s_def)
  have "cos (a + pi / 3 - a) = c1 * c + s1 * s"
    unfolding c1_def s1_def c_def s_def by (rule cos_diff)
  then have m: "c1 * c + s1 * s = 1 / 2" by (simp add: cos_60)
  have "(r * c1 - r * c)\<^sup>2 + (r * s1 - r * s)\<^sup>2 =
          r\<^sup>2 * ((c1\<^sup>2 + s1\<^sup>2) + (c\<^sup>2 + s\<^sup>2) - 2 * (c1 * c + s1 * s))"
    by (simp add: power2_eq_square algebra_simps)
  also have "\<dots> = r\<^sup>2" by (simp add: u1 u m)
  finally show ?thesis
    unfolding hypot_def c1_def s1_def c_def s_def by simp
qed

lemma offset_geometry:
  fixes dx dy L :: real
  assumes "hypot dx dy = L" "0 < L"
  shows "hypot ((- dy) / L * 2) (dx / L * 2) = 2"
    and "(- dy) / L * 2 * dx + dx / L * 2 * dy = 0"
proof -
  from assms have sq: "dx\<^sup>2 + dy\<^sup>2 = L\<^sup>2"
    unfolding hypot_def by (metis abs_of_pos real_sqrt_abs real_sqrt_eq_iff abs_ge_zero
        real_sqrt_ge_0_iff sum_power2_ge_zero abs_of_nonneg)
  have "((- dy) / L * 2)\<^sup>2 + (dx / L * 2)\<^sup>2 = 4 * (dx\<^sup>2 + dy\<^sup>2) / L\<^sup>2"
    using assms(2) by (simp add: power2_eq_square field_simps)
  also have "\<dots> = 2\<^sup>2" using assms(2) by (simp add: sq)
  finally show "hypot ((- dy) / L * 2) (dx / L * 2) = 2"
    unfolding hypot_def by simp
  show "(- dy) / L * 2 * dx + dx / L * 2 * dy = 0" by simp
qed

lemma offset_of_dbl_of:
  assumes "0 < r" "i = 0 \<or> i = 2 \<or> i = 4"
  shows "offset_of (edge_of (hexagon cx cy r rot) i) (dbl_of (hexagon cx cy r rot) i)"
proof -
  define a where "a = rot + real_of_int i * (pi / 3)"
  define x1 where "x1 = cx + r * cos a"
  define y1 where "y1 = cy + r * sin a"
  define x2 where "x2 = cx + r * cos (a + pi / 3)"
  define y2 where "y2 = cy + r * sin (a + pi / 3)"
  from assms(2) have i: "0 \<le> i" "i < 5" by auto
  then have n1: "nat i < 6" and n2: "nat ((i + 1) mod 6) = nat i + 1" and n3: "nat i + 1 < 6"
    by simp_all
  have p1: "hexagon cx cy r rot ! nat i = (x1, y1)"
    using i by (simp add: hexagon_nth [OF n1] x1_def y1_def a_def)
  have ang: "rot + real (nat i + 1) * (pi / 3) = a + pi / 3"
    using i by (simp add: a_def algebra_simps)
  have p2: "hexagon cx cy r rot ! nat ((i + 1) mod 6) = (x2, y2)"
    unfolding n2 hexagon_nth [OF n3] ang x2_def y2_def by (rule refl)
  have L: "hypot (x2 - x1) (y2 - y1) = r"
    using chord_length [of r a] assms(1) by (simp add: x1_def x2_def y1_def y2_def)
  then have oL: "or_1 (hypot (x2 - x1) (y2 - y1)) = r"
    using assms(1) by (simp add: or_1_def)
  define ox where "ox = (- (y2 - y1)) / r * 2"
  define oy where "oy = (x2 - x1) / r * 2"
  have d: "dbl_of (hexagon cx cy r rot) i =
             Line (x1 + ox) (y1 + oy) (x2 + ox) (y2 + oy) 1.2 ''#1F2937'' ''round''"
    by (simp add: dbl_of_def p1 p2 Let_def oL ox_def oy_def) (simp_all add: minus_divide_left)
  have e1: "line_from (edge_of (hexagon cx cy r rot) i) = (x1, y1)"
    by (simp only: line_from_edge_of p1)
  have e2: "line_to (edge_of (hexagon cx cy r rot) i) = (x2, y2)"
    by (simp only: line_to_edge_of p2)
  have h: "hypot ox oy = 2"
    unfolding ox_def oy_def by (rule offset_geometry(1) [OF L assms(1)])
  have o: "ox * (x2 - x1) + oy * (y2 - y1) = 0"
    unfolding ox_def oy_def by (rule offset_geometry(2) [OF L assms(1)])
  show ?thesis
    unfolding offset_of_def e1 e2 d fst_conv snd_conv using h o by blast
qed

lemma dbl_offsets:
  assumes "0 < r"
  shows "list_all (\<lambda>j. offset_of (map (edge_of (hexagon cx cy r rot)) [0..5] ! (2 * j))
                         (map (dbl_of (hexagon cx cy r rot)) [0, 2, 4] ! j)) [0..<3]"
  by (simp add: upto_0_5 upt_0_3 offset_of_dbl_of [OF assms])

lemma n_sub_range:
  assumes "random_spec R"
  shows "1 \<le> n_sub hash R name \<and> n_sub hash R name \<le> 3"
  using assms unfolding random_spec_def n_sub_def by simp

lemma length_flatten_pairs: "length (flatten_pairs ps) = 2 * length ps"
  by (induction ps) (simp_all add: flatten_pairs_def)

lemma substituents_of_call:
  assumes "0 < s" "list_all (\<lambda>j. j < 6) js"
  shows "list_all (substituent (map line_from (map (edge_of (icon_points hash R name s)) [0..5]))
                     (real_of_int s / 2) (real_of_int s / 2) (0.24 * real_of_int s))
           (map (sub_of (icon_points hash R name s) (real_of_int s / 2) (real_of_int s / 2)
                   (real_of_int s)) js)"
proof -
  have r: "0 < real_of_int s * 0.26" using assms(1) by simp
  have len: "0 \<le> 0.24 * real_of_int s" using assms(1) by simp
  have sz: "0.24 * real_of_int s / 0.24 = real_of_int s" by simp
  have "substituent (map line_from (map (edge_of (icon_points hash R name s)) [0..5]))
          (real_of_int s / 2) (real_of_int s / 2) (0.24 * real_of_int s)
          (sub_of (icon_points hash R name s) (real_of_int s / 2) (real_of_int s / 2)
             (real_of_int s) j)" if "j < 6" for j
    using substituent_sub_of [OF r len that, of "real_of_int s / 2" "real_of_int s / 2"
        "fst (uniform R 0 (pi / 3) (random_seed R (hash name mod 10 ^ 7)))"]
    unfolding sz icon_points_def [symmetric] .
  with assms(2) show ?thesis by (simp add: list_all_iff)
qed

lemma icon_structure_of_call:
  assumes "random_spec R" "float_range (real_of_int s)" "0 < s"
    and "molecule_svg hash R name s = Inr doc"
  shows "icon_structure s doc"
proof -
  from molecule_svg_Inr [OF assms(1,2), of hash name] assms(4) obtain js where
    doc: "doc = \<lparr>svg_size = s,
                svg_bg = Circle (real_of_int s / 2) (real_of_int s / 2) (real_of_int s * 0.44)
                           (A_TEAL @ ''11''),
                svg_edges = map (edge_of (icon_points hash R name s)) [0..5],
                svg_dbl = map (dbl_of (icon_points hash R name s)) [0, 2, 4],
                svg_subs = flatten_pairs (map (sub_of (icon_points hash R name s)
                             (real_of_int s / 2) (real_of_int s / 2) (real_of_int s)) js)\<rparr>"
    and js: "length js = nat (n_sub hash R name)" "list_all (\<lambda>j. j < 6) js"
    by auto
  define ps where "ps = map (sub_of (icon_points hash R name s)
                             (real_of_int s / 2) (real_of_int s / 2) (real_of_int s)) js"
  have e: "svg_edges doc = map (edge_of (icon_points hash R name s)) [0..5]"
    and d: "svg_dbl doc = map (dbl_of (icon_points hash R name s)) [0, 2, 4]"
    and sb: "svg_subs doc = flatten_pairs ps"
    by (simp_all add: doc ps_def)
  have l6: "length (svg_edges doc) = 6" unfolding e by (simp add: upto_0_5)
  have oe: "list_all outer_edge (svg_edges doc)"
    unfolding e by (simp add: list_all_iff outer_edge_edge_of)
  have cl: "list_all (\<lambda>i. line_to (svg_edges doc ! i) = line_from (svg_edges doc ! ((i + 1) mod 6)))
              [0..<6]"
    unfolding e by (rule edges_closed)
  have l3: "length (svg_dbl doc) = 3" unfolding d by simp
  have r: "0 < real_of_int s * 0.26" using assms(3) by simp
  have off: "list_all (\<lambda>j. offset_of (svg_edges doc ! (2 * j)) (svg_dbl doc ! j)) [0..<3]"
    unfolding e d icon_points_def by (rule dbl_offsets [OF r])
  from n_sub_range [OF assms(1), of hash name]
  have "1 \<le> nat (n_sub hash R name)" "nat (n_sub hash R name) \<le> 3" by linarith+
  with js(1) have n: "1 \<le> length ps" "length ps \<le> 3" by (simp_all add: ps_def)
  have su: "list_all (substituent (map line_from (svg_edges doc))
                       (real_of_int s / 2) (real_of_int s / 2) (0.24 * real_of_int s)) ps"
    unfolding e ps_def by (rule substituents_of_call [OF assms(3) js(2)])
  show ?thesis
    unfolding icon_structure_def using l6 oe cl l3 off sb n su by blast
qed


lemma mod_10_6_of_10_7:
  fixes a b :: int
  assumes "a mod 10 ^ 7 = b mod 10 ^ 7"
  shows "a mod 10 ^ 6 = b mod 10 ^ 6"
proof -
  have d: "(10::int) ^ 6 dvd 10 ^ 7" by simp
  have "a mod 10 ^ 6 = a mod 10 ^ 7 mod 10 ^ 6" by (simp only: mod_mod_cancel [OF d])
  also have "\<dots> = b mod 10 ^ 7 mod 10 ^ 6" by (simp only: assms)
  also have "\<dots> = b mod 10 ^ 6" by (simp only: mod_mod_cancel [OF d])
  finally show ?thesis .
qed

lemma salted_hash_0: "salted_hash 0 ''Mol-001'' = 71616747726"
  by (simp add: salted_hash_def)

lemma salted_hash_1: "salted_hash 1 ''Mol-001'' = 99129361837"
  by (simp add: salted_hash_def)

lemma n_sub_salt_0: "n_sub (salted_hash 0) lcg ''Mol-001'' = 1"
  by (simp add: n_sub_def salted_hash_0 lcg_def)

lemma n_sub_salt_1: "n_sub (salted_hash 1) lcg ''Mol-001'' = 2"
  by (simp add: n_sub_def salted_hash_1 lcg_def)

lemma float_range_64: "float_range (real_of_int 64)"
  by (simp add: float_range_def)

lemma float_range_0: "float_range (real_of_int 0)"
  by (simp add: float_range_def)

lemma float_range_minus_5: "float_range (real_of_int (- 5))"
  by (simp add: float_range_def)

lemma not_float_range_huge: "\<not> float_range (real_of_int (10 ^ 400))"
  by (simp add: float_range_def)

lemma length_subs_of_call:
  assumes "random_spec R" "float_range (real_of_int s)"
  shows "length (svg_subs (projr (molecule_svg hash R name s))) = 2 * nat (n_sub hash R name)"
proof -
  from molecule_svg_Inr [OF assms, of hash name] obtain js where
    "molecule_svg hash R name s =
           Inr \<lparr>svg_size = s,
                svg_bg = Circle (real_of_int s / 2) (real_of_int s / 2) (real_of_int s * 0.44)
                           (A_TEAL @ ''11''),
                svg_edges = map (edge_of (icon_points hash R name s)) [0..5],
                svg_dbl = map (dbl_of (icon_points hash R name s)) [0, 2, 4],
                svg_subs = flatten_pairs (map (sub_of (icon_points hash R name s)
                             (real_of_int s / 2) (real_of_int s / 2) (real_of_int s)) js)\<rparr>"
    "length js = nat (n_sub hash R name)" by blast
  then show ?thesis by (simp add: length_flatten_pairs)
qed

section \<open>Properties of molecule_svg\<close>

text \<open>
  C9. For every name and every positive size, the icon that a call returns has exactly six
  outer edges, which close up into a hexagon; exactly three double-bond lines, the
  \<open>j\<close>-th being edge \<open>2j\<close> moved by 2 at a right angle to it; and \<open>n_sub\<close> substituents with
  \<open>1 \<le> n_sub \<le> 3\<close>, each a line that starts at a vertex and runs \<open>0.24 * size\<close> outwards from
  the centre, followed by one dot at its end. (A size too large for a float gives no icon;
  see C10.)
\<close>

theorem molecule_svg_structure:
  assumes "random_spec R" "0 < size_px" "molecule_svg hash R name size_px = Inr doc"
  shows "icon_structure size_px doc"
proof (cases "float_range (real_of_int size_px)")
  case True
  then show ?thesis using assms by (intro icon_structure_of_call [of R size_px hash name])
next
  case False
  then have "molecule_svg hash R name size_px = Inl OverflowError" by (rule molecule_svg_Inl)
  with assms(3) show ?thesis by simp
qed

theorem molecule_svg_structure_witness:
  "random_spec lcg \<and> (0::int) < 64 \<and>
   molecule_svg (salted_hash 0) lcg ''Mol-001'' 64 =
     Inr (projr (molecule_svg (salted_hash 0) lcg ''Mol-001'' 64)) \<and>
   icon_structure 64 (projr (molecule_svg (salted_hash 0) lcg ''Mol-001'' 64))"
proof -
  from molecule_svg_Inr [OF lcg_random_spec float_range_64, of "salted_hash 0" "''Mol-001''"]
  have r: "molecule_svg (salted_hash 0) lcg ''Mol-001'' 64 =
             Inr (projr (molecule_svg (salted_hash 0) lcg ''Mol-001'' 64))"
    by auto
  have "(0::int) < 64" by simp
  then have "icon_structure 64 (projr (molecule_svg (salted_hash 0) lcg ''Mol-001'' 64))"
    using r by (intro molecule_svg_structure [OF lcg_random_spec])
  with r lcg_random_spec show ?thesis by simp
qed

text \<open>
  C10, as the code has it. For every name and every integer size that converts to a float,
  sizes of zero and below included, the call returns a document and raises nothing: every
  length is passed through \<^verbatim>\<open>or 1\<close> before it divides, and every index drawn lies in
  \<open>0..5\<close>.
\<close>

theorem molecule_svg_total:
  assumes "random_spec R" "float_range (real_of_int size_px)"
  shows "\<exists>doc. molecule_svg hash R name size_px = Inr doc"
  using molecule_svg_Inr [OF assms, of hash name] by blast

theorem molecule_svg_total_witness:
  "random_spec lcg \<and> float_range (real_of_int 0) \<and>
   (\<exists>doc. molecule_svg (salted_hash 0) lcg ''Mol-001'' 0 = Inr doc)"
  using molecule_svg_total [OF lcg_random_spec float_range_0, of "salted_hash 0" "''Mol-001''"]
    lcg_random_spec float_range_0 by (intro conjI)

text \<open>
  C10 as stated covers every integer size. A Python integer is unbounded, and
  \<^verbatim>\<open>size/2\<close> raises \<^verbatim>\<open>OverflowError\<close> for one that no float can hold, such as \<open>10^400\<close>.
\<close>

theorem molecule_svg_overflow:
  "molecule_svg (salted_hash 0) lcg ''Mol-001'' (10 ^ 400) = Inl OverflowError"
  by (rule molecule_svg_Inl [OF not_float_range_huge])

text \<open>
  C5, as the code has it. Neither function checks its argument and neither signals an
  error of its own. \<^verbatim>\<open>generate_demo\<close> fails exactly when the count is zero or below, with the
  \<^verbatim>\<open>KeyError\<close> that sorting the empty frame by a missing column raises; \<^verbatim>\<open>molecule_svg\<close>
  fails exactly when the size does not convert to a float, with \<^verbatim>\<open>OverflowError\<close>, and
  so returns a document for every size of zero and below that does convert.
\<close>

theorem error_behaviour:
  assumes "random_spec R"
  shows "(n \<le> 0 \<longrightarrow> fst (generate_demo sort_values R n seed g) = Inl (KeyError ''Composite score'')) \<and>
         (1 \<le> n \<longrightarrow> \<not> isl (fst (generate_demo sort_values R n seed g))) \<and>
         (float_range (real_of_int size_px) \<longrightarrow> \<not> isl (molecule_svg hash R name size_px)) \<and>
         (\<not> float_range (real_of_int size_px) \<longrightarrow>
            molecule_svg hash R name size_px = Inl OverflowError)"
proof (intro conjI impI)
  assume "n \<le> 0"
  then show "fst (generate_demo sort_values R n seed g) = Inl (KeyError ''Composite score'')"
    by (rule generate_demo_Inl)
next
  assume "1 \<le> n"
  then show "\<not> isl (fst (generate_demo sort_values R n seed g))"
    by (simp add: generate_demo_Inr)
next
  assume "float_range (real_of_int size_px)"
  from molecule_svg_Inr [OF assms this, of hash name]
  show "\<not> isl (molecule_svg hash R name size_px)" by auto
next
  assume "\<not> float_range (real_of_int size_px)"
  then show "molecule_svg hash R name size_px = Inl OverflowError" by (rule molecule_svg_Inl)
qed

theorem error_behaviour_witness:
  "random_spec lcg \<and>
   fst (generate_demo sort_desc_unstable lcg 0 26 0) = Inl (KeyError ''Composite score'') \<and>
   \<not> isl (fst (generate_demo sort_desc_unstable lcg 2 26 0)) \<and>
   \<not> isl (molecule_svg (salted_hash 0) lcg ''Mol-001'' 64) \<and>
   molecule_svg (salted_hash 0) lcg ''Mol-001'' (10 ^ 400) = Inl OverflowError"
proof -
  note a = error_behaviour [OF lcg_random_spec, of 0 sort_desc_unstable 26 0 64 "salted_hash 0" "''Mol-001''"]
  note b = error_behaviour [OF lcg_random_spec, of 2 sort_desc_unstable 26 0 "10 ^ 400" "salted_hash 0" "''Mol-001''"]
  have "fst (generate_demo sort_desc_unstable lcg 0 26 0) = Inl (KeyError ''Composite score'')"
    using a by simp
  moreover have "\<not> isl (fst (generate_demo sort_desc_unstable lcg 2 26 0))"
    using b by simp
  moreover have "\<not> isl (molecule_svg (salted_hash 0) lcg ''Mol-001'' 64)"
    using a float_range_64 by blast
  moreover have "molecule_svg (salted_hash 0) lcg ''Mol-001'' (10 ^ 400) = Inl OverflowError"
    using b not_float_range_huge by blast
  ultimately show ?thesis using lcg_random_spec by (intro conjI)
qed

text \<open>
  C5 as stated has the icon synthesizer signal an error whenever the size is zero or
  below. At size \<open>-5\<close> the call returns a document.
\<close>

theorem molecule_svg_accepts_negative_size:
  "float_range (real_of_int (- 5)) \<and> \<not> isl (molecule_svg (salted_hash 0) lcg ''Mol-001'' (- 5))"
proof
  show "float_range (real_of_int (- 5))" by (rule float_range_minus_5)
  from molecule_svg_Inr [OF lcg_random_spec float_range_minus_5, of "salted_hash 0" "''Mol-001''"]
  show "\<not> isl (molecule_svg (salted_hash 0) lcg ''Mol-001'' (- 5))" by auto
qed

text \<open>
  C8, as the code has it. The name enters a call only through its hash modulo \<open>10^7\<close> (the
  hash modulo \<open>10^6\<close> follows from it): two calls with the same name and size whose string
  hashes agree modulo \<open>10^7\<close> return the same document, whatever else differs between the
  two hash functions. Within one process the hash function is one and the same.
\<close>

theorem molecule_svg_hash_stable:
  assumes "hash1 name mod 10 ^ 7 = hash2 name mod 10 ^ 7"
  shows "molecule_svg hash1 R name size_px = molecule_svg hash2 R name size_px"
  unfolding molecule_svg_def assms mod_10_6_of_10_7 [OF assms] by (rule refl)

theorem molecule_svg_hash_stable_witness:
  "salted_hash 0 ''Mol-001'' mod 10 ^ 7 = (salted_hash 0 ''Mol-001'' + 10 ^ 7) mod 10 ^ 7 \<and>
   molecule_svg (salted_hash 0) lcg ''Mol-001'' 64 =
   molecule_svg (\<lambda>s. salted_hash 0 s + 10 ^ 7) lcg ''Mol-001'' 64"
proof -
  have h: "salted_hash 0 ''Mol-001'' mod 10 ^ 7 = (salted_hash 0 ''Mol-001'' + 10 ^ 7) mod 10 ^ 7"
    by simp
  from molecule_svg_hash_stable [of "salted_hash 0" "''Mol-001''" "\<lambda>s. salted_hash 0 s + 10 ^ 7", OF h]
  show ?thesis using h by (intro conjI)
qed

text \<open>
  C8 as stated also covers calls in different processes. The built-in string hash is
  salted per process; under two salts the same name and size give documents with one and
  with two substituents.
\<close>

theorem molecule_svg_differs_across_salts:
  "molecule_svg (salted_hash 0) lcg ''Mol-001'' 64 \<noteq> molecule_svg (salted_hash 1) lcg ''Mol-001'' 64"
proof
  assume "molecule_svg (salted_hash 0) lcg ''Mol-001'' 64 = molecule_svg (salted_hash 1) lcg ''Mol-001'' 64"
  then have "length (svg_subs (projr (molecule_svg (salted_hash 0) lcg ''Mol-001'' 64))) =
             length (svg_subs (projr (molecule_svg (salted_hash 1) lcg ''Mol-001'' 64)))"
    by simp
  then show False
    unfolding length_subs_of_call [OF lcg_random_spec float_range_64] n_sub_salt_0 n_sub_salt_1
    by simp
qed

end
